theory Spec2Isabelle
  imports Main "HOL-Library.Word" "HOL-Library.Code_Target_Numeral"
begin

section \<open>VirtualMemory<T>: a fixed-capacity array on reserved address space\<close>

text \<open>
  A shallow embedding of \<^verbatim>\<open>src/virtualmemory.h\<close>. The class template has three
  members, \<^verbatim>\<open>memory_\<close>, \<^verbatim>\<open>capacity_\<close> and \<^verbatim>\<open>count_\<close>; its methods call the
  virtual-memory primitives of the operating system (\<^verbatim>\<open>VirtualAlloc\<close>/\<^verbatim>\<open>VirtualFree\<close> under
  \<^verbatim>\<open>#ifdef WINDOWS\<close>, \<^verbatim>\<open>mmap\<close>/\<^verbatim>\<open>msync\<close> otherwise) and the assertion macro
  \<^verbatim>\<open>rmsAssert\<close>. \<^verbatim>\<open>size_t\<close> and pointers are 64-bit words; \<^verbatim>\<open>sizeof(T)\<close> is a parameter
  \<open>sizeofT\<close> of every operation; an element of type \<^verbatim>\<open>T\<close> is a value of type \<open>'a\<close>.
  The destructor, which releases the reservation, is left out: nothing proved here
  depends on it.
\<close>

subsection \<open>Machine types\<close>

type_synonym size_t = "64 word"
type_synonym addr = "64 word"
type_synonym dword = "32 word"

datatype platform = WINDOWS | POSIX

text \<open>
  The members of the class, in declaration order. A name may not end in an underscore
  here, so \<^verbatim>\<open>memory_\<close>, \<^verbatim>\<open>capacity_\<close> and \<^verbatim>\<open>count_\<close> are written with the prefix
  \<open>m_\<close> instead.
\<close>

record VirtualMemory =
  m_memory :: addr
  m_capacity :: size_t
  m_count :: size_t

subsection \<open>The process's address space\<close>

text \<open>
  The operating system is the environment of the class. Its state is the page table of
  the process (every page is free, reserved without access, or committed with read/write
  access), the table of reservations \<^verbatim>\<open>VirtualFree\<close> consults, the objects of type \<^verbatim>\<open>T\<close>
  that live in memory (keyed by their address), and the log of the system calls made so
  far. Pages are 4096 bytes and are numbered from 0; page 0 (the null page) and pages
  beyond the 64-bit address space are never accessible.
\<close>

datatype page_state = Free | Reserved | Committed

datatype syscall =
    VirtualAlloc_RESERVE size_t
  | VirtualAlloc_COMMIT addr size_t
  | VirtualFree_DECOMMIT addr
  | Mmap_ANONYMOUS size_t
  | Mmap_FIXED addr size_t
  | Msync addr size_t

record 'a vmem =
  pages :: "nat \<Rightarrow> page_state"
  allocs :: "addr \<Rightarrow> size_t option"
  content :: "addr \<Rightarrow> 'a option"
  calls :: "syscall list"

text \<open>
  What the class cannot decide is decided by the system: where a new reservation is
  placed (or that the address space is exhausted), and whether a request is granted (or
  physical memory and swap are exhausted). Both may depend on everything the process has
  asked for so far.
\<close>

record os_policy =
  place :: "syscall list \<Rightarrow> size_t \<Rightarrow> addr option"
  grant :: "syscall list \<Rightarrow> syscall \<Rightarrow> bool"

definition PAGE_SIZE :: nat where
  "PAGE_SIZE = 4096"

definition MAP_FAILED :: addr where
  "MAP_FAILED = - 1"

text \<open>The pages that contain one or more bytes of the range from \<open>a\<close> to \<open>a + len\<close>.\<close>

definition page_range :: "addr \<Rightarrow> size_t \<Rightarrow> nat list" where
  "page_range a len =
     (if len = 0 then []
      else [unat a div PAGE_SIZE ..< (unat a + unat len - 1) div PAGE_SIZE + 1])"

definition usable :: "nat \<Rightarrow> bool" where
  "usable p = (0 < p \<and> p < 2 ^ 52)"

definition accessible :: "'a vmem \<Rightarrow> addr \<Rightarrow> size_t \<Rightarrow> bool" where
  "accessible m a len =
     list_all (\<lambda>p. usable p \<and> pages m p = Committed) (page_range a len)"

definition set_pages :: "nat list \<Rightarrow> page_state \<Rightarrow> (nat \<Rightarrow> page_state) \<Rightarrow> nat \<Rightarrow> page_state" where
  "set_pages ps st f = (\<lambda>p. if p \<in> set ps then st else f p)"

definition drop_content :: "nat list \<Rightarrow> (addr \<Rightarrow> 'a option) \<Rightarrow> addr \<Rightarrow> 'a option" where
  "drop_content ps c = (\<lambda>a. if unat a div PAGE_SIZE \<in> set ps then None else c a)"

definition log_call :: "syscall \<Rightarrow> 'a vmem \<Rightarrow> 'a vmem" where
  "log_call c m = m\<lparr>calls := calls m @ [c]\<rparr>"

text \<open>
  A new mapping is placed by the system on free pages, page-aligned, inside the address
  space and never at address 0; a request of length 0 fails.
\<close>

definition valid_placement :: "'a vmem \<Rightarrow> addr \<Rightarrow> size_t \<Rightarrow> bool" where
  "valid_placement m a len =
     (len \<noteq> 0 \<and> a \<noteq> 0 \<and> unat a mod PAGE_SIZE = 0 \<and> unat a + unat len \<le> 2 ^ 64 \<and>
      list_all (\<lambda>p. pages m p = Free) (page_range a len))"

text \<open>
  \<^verbatim>\<open>VirtualAlloc(0, length, MEM_RESERVE, PAGE_NOACCESS)\<close>: the address of the reserved
  region, or 0.
\<close>

definition VirtualAlloc_reserve :: "os_policy \<Rightarrow> size_t \<Rightarrow> 'a vmem \<Rightarrow> addr \<times> 'a vmem" where
  "VirtualAlloc_reserve os len m =
     (let m1 = log_call (VirtualAlloc_RESERVE len) m in
      case place os (calls m) len of
        None \<Rightarrow> (0, m1)
      | Some a \<Rightarrow>
          if valid_placement m a len
          then (a, m1\<lparr>pages := set_pages (page_range a len) Reserved (pages m),
                      allocs := (allocs m)(a \<mapsto> len),
                      content := drop_content (page_range a len) (content m)\<rparr>)
          else (0, m1))"

text \<open>
  \<^verbatim>\<open>VirtualAlloc(target, size, MEM_COMMIT, PAGE_READWRITE)\<close>: commits all pages containing
  one or more bytes of the range, which must lie in reserved (or already committed)
  pages; the address, or 0. A null \<open>target\<close> is refused: the class passes the address of
  a slot, which is null only when the slot arithmetic has wrapped around.
\<close>

definition VirtualAlloc_commit :: "os_policy \<Rightarrow> addr \<Rightarrow> size_t \<Rightarrow> 'a vmem \<Rightarrow> addr \<times> 'a vmem" where
  "VirtualAlloc_commit os target len m =
     (let c = VirtualAlloc_COMMIT target len; m1 = log_call c m in
      if grant os (calls m) c \<and> target \<noteq> 0 \<and> len \<noteq> 0 \<and>
         list_all (\<lambda>p. usable p \<and> pages m p \<noteq> Free) (page_range target len)
      then (target, m1\<lparr>pages := set_pages (page_range target len) Committed (pages m)\<rparr>)
      else (0, m1))"

text \<open>
  \<^verbatim>\<open>VirtualFree(base, 0, MEM_DECOMMIT)\<close>: decommits the entire region that was reserved at
  \<open>base\<close>; nonzero on success.
\<close>

definition VirtualFree_decommit :: "os_policy \<Rightarrow> addr \<Rightarrow> 'a vmem \<Rightarrow> int \<times> 'a vmem" where
  "VirtualFree_decommit os base m =
     (let c = VirtualFree_DECOMMIT base; m1 = log_call c m in
      case allocs m base of
        None \<Rightarrow> (0, m1)
      | Some len \<Rightarrow>
          if grant os (calls m) c
          then (1, m1\<lparr>pages := set_pages (page_range base len) Reserved (pages m),
                      content := drop_content (page_range base len) (content m)\<rparr>)
          else (0, m1))"

text \<open>
  \<^verbatim>\<open>mmap(0, length, PROT_READ | PROT_WRITE, MAP_PRIVATE | MAP_ANONYMOUS, -1, 0)\<close>: the
  address of a new readable and writable mapping, or \<^verbatim>\<open>MAP_FAILED\<close>.
\<close>

definition mmap_anonymous :: "os_policy \<Rightarrow> size_t \<Rightarrow> 'a vmem \<Rightarrow> addr \<times> 'a vmem" where
  "mmap_anonymous os len m =
     (let m1 = log_call (Mmap_ANONYMOUS len) m in
      case place os (calls m) len of
        None \<Rightarrow> (MAP_FAILED, m1)
      | Some a \<Rightarrow>
          if valid_placement m a len
          then (a, m1\<lparr>pages := set_pages (page_range a len) Committed (pages m),
                      content := drop_content (page_range a len) (content m)\<rparr>)
          else (MAP_FAILED, m1))"

text \<open>
  \<^verbatim>\<open>mmap(base, length, PROT_READ | PROT_WRITE, MAP_FIXED | MAP_PRIVATE | MAP_ANONYMOUS, -1, 0)\<close>:
  replaces whatever is mapped in the range by fresh pages; \<open>base\<close>, or \<^verbatim>\<open>MAP_FAILED\<close>.
\<close>

definition mmap_fixed :: "os_policy \<Rightarrow> addr \<Rightarrow> size_t \<Rightarrow> 'a vmem \<Rightarrow> addr \<times> 'a vmem" where
  "mmap_fixed os base len m =
     (let c = Mmap_FIXED base len; m1 = log_call c m in
      if grant os (calls m) c \<and> len \<noteq> 0 \<and> base \<noteq> 0 \<and> unat base mod PAGE_SIZE = 0 \<and>
         unat base + unat len \<le> 2 ^ 64
      then (base, m1\<lparr>pages := set_pages (page_range base len) Committed (pages m),
                     content := drop_content (page_range base len) (content m)\<rparr>)
      else (MAP_FAILED, m1))"

text \<open>\<^verbatim>\<open>msync(base, length, flags)\<close>: nothing the class can observe; its result is ignored.\<close>

definition msync :: "addr \<Rightarrow> size_t \<Rightarrow> 'a vmem \<Rightarrow> 'a vmem" where
  "msync base len m = log_call (Msync base len) m"

subsection \<open>Outcomes\<close>

text \<open>
  Modelled from the spec: \<^verbatim>\<open>rmsAssert\<close> is the process-wide fatal-assertion facility, a
  macro that is invoked but not defined in the source; it aborts execution when its
  condition is false. An operation therefore either returns a value, or the process ends
  there: by a failed assertion, or (where no handler is installed) by the unhandled
  protection fault. Both outcomes carry the state at that moment.
\<close>

datatype fatal = Assert_failed | Segfault

datatype ('r, 's) outcome = Fatal fatal 's | Return 'r 's

fun state_of :: "('r, 's) outcome \<Rightarrow> 's" where
  "state_of (Fatal e s) = s"
| "state_of (Return r s) = s"

fun returned :: "('r, 's) outcome \<Rightarrow> bool" where
  "returned (Fatal e s) = False"
| "returned (Return r s) = True"

subsection \<open>Constructor\<close>

definition VirtualMemory_ctor ::
  "platform \<Rightarrow> os_policy \<Rightarrow> size_t \<Rightarrow> size_t \<Rightarrow> 'a vmem \<Rightarrow> (VirtualMemory, 'a vmem) outcome" where
  "VirtualMemory_ctor pf os sizeofT capacity m =
     (if capacity = 0
      then Return \<lparr>m_memory = 0, m_capacity = capacity, m_count = 0\<rparr> m
      else
        let length = sizeofT * capacity in
        case pf of
          WINDOWS \<Rightarrow>
            (case VirtualAlloc_reserve os length m of (memory, m1) \<Rightarrow>
               if memory \<noteq> 0
               then Return \<lparr>m_memory = memory, m_capacity = capacity, m_count = 0\<rparr> m1
               else Fatal Assert_failed m1)
        | POSIX \<Rightarrow>
            (case mmap_anonymous os length m of (memory, m1) \<Rightarrow>
               if memory \<noteq> MAP_FAILED
               then Return \<lparr>m_memory = memory, m_capacity = capacity, m_count = 0\<rparr>
                      (msync memory length m1)
               else Fatal Assert_failed m1))"

subsection \<open>Reset\<close>

definition Reset ::
  "platform \<Rightarrow> os_policy \<Rightarrow> size_t \<Rightarrow> VirtualMemory \<times> 'a vmem \<Rightarrow>
     (unit, VirtualMemory \<times> 'a vmem) outcome" where
  "Reset pf os sizeofT = (\<lambda>(this, m).
     if m_memory this \<noteq> 0
     then
       (case pf of
          WINDOWS \<Rightarrow>
            (case VirtualFree_decommit os (m_memory this) m of (ret, m1) \<Rightarrow>
               if ret \<noteq> 0 then Return () (this\<lparr>m_count := 0\<rparr>, m1)
               else Fatal Assert_failed (this, m1))
        | POSIX \<Rightarrow>
            (let length = sizeofT * m_capacity this;
                 m1 = msync (m_memory this) length m
             in case mmap_fixed os (m_memory this) length m1 of (memory, m2) \<Rightarrow>
               if memory = m_memory this then Return () (this\<lparr>m_count := 0\<rparr>, m2)
               else Fatal Assert_failed (this, m2)))
     else Return () (this\<lparr>m_count := 0\<rparr>, m))"

subsection \<open>Indexed access\<close>

text \<open>
  A reference \<^verbatim>\<open>T&\<close> is the address of the element; \<^verbatim>\<open>memory_[index]\<close> is at
  \<^verbatim>\<open>m_memory + index * sizeof(T)\<close>, computed in 64-bit arithmetic.
\<close>

definition slot :: "size_t \<Rightarrow> VirtualMemory \<Rightarrow> size_t \<Rightarrow> addr" where
  "slot sizeofT this index = m_memory this + index * sizeofT"

definition operator_index ::
  "size_t \<Rightarrow> VirtualMemory \<times> 'a vmem \<Rightarrow> size_t \<Rightarrow> (addr, VirtualMemory \<times> 'a vmem) outcome" where
  "operator_index sizeofT = (\<lambda>(this, m) index.
     if index < m_count this then Return (slot sizeofT this index) (this, m)
     else Fatal Assert_failed (this, m))"

definition operator_index_const ::
  "size_t \<Rightarrow> VirtualMemory \<times> 'a vmem \<Rightarrow> size_t \<Rightarrow> (addr, VirtualMemory \<times> 'a vmem) outcome" where
  "operator_index_const sizeofT = (\<lambda>(this, m) index.
     if index < m_count this then Return (slot sizeofT this index) (this, m)
     else Fatal Assert_failed (this, m))"

definition capacity :: "VirtualMemory \<Rightarrow> size_t" where
  "capacity this = m_capacity this"

definition size_vm :: "VirtualMemory \<Rightarrow> size_t" where
  "size_vm this = m_count this"

subsection \<open>emplace_back\<close>

text \<open>
  The constructor of \<^verbatim>\<open>T\<close> is supplied by the caller. It is represented by the value \<open>v\<close>
  it builds in the slot and by the addresses \<open>touches\<close> it reads besides the slot (its
  arguments are forwarded by reference). An access to a page that is not committed raises
  a protection fault at that address.
\<close>

definition first_fault :: "'a vmem \<Rightarrow> size_t \<Rightarrow> addr \<Rightarrow> addr list \<Rightarrow> addr option" where
  "first_fault m sizeofT dest touches =
     (case find (\<lambda>a. \<not> accessible m a 1) touches of
        Some a \<Rightarrow> Some a
      | None \<Rightarrow>
          (case find (\<lambda>p. \<not> (usable p \<and> pages m p = Committed)) (page_range dest sizeofT) of
             Some p \<Rightarrow> Some (word_of_nat (max (unat dest) (p * PAGE_SIZE)))
           | None \<Rightarrow> None))"

definition EXCEPTION_ACCESS_VIOLATION :: dword where
  "EXCEPTION_ACCESS_VIOLATION = 0xC0000005"

definition EXCEPTION_EXECUTE_HANDLER :: int where
  "EXCEPTION_EXECUTE_HANDLER = 1"

definition EXCEPTION_CONTINUE_EXECUTION :: int where
  "EXCEPTION_CONTINUE_EXECUTION = - 1"

definition PageFaultExceptionFilter ::
  "os_policy \<Rightarrow> size_t \<Rightarrow> dword \<Rightarrow> addr \<Rightarrow> 'a vmem \<Rightarrow> int \<times> 'a vmem" where
  "PageFaultExceptionFilter os sizeofT dwCode target m =
     (if dwCode = EXCEPTION_ACCESS_VIOLATION
      then
        (case VirtualAlloc_commit os target sizeofT m of (result, m1) \<Rightarrow>
           if result \<noteq> 0 then (EXCEPTION_CONTINUE_EXECUTION, m1)
           else (EXCEPTION_EXECUTE_HANDLER, m1))
      else (EXCEPTION_EXECUTE_HANDLER, m))"

text \<open>
  The \<^verbatim>\<open>__try\<close>/\<^verbatim>\<open>__except\<close> statement around the placement \<^verbatim>\<open>new\<close>. A fault inside the
  guarded body evaluates the filter; \<^verbatim>\<open>EXCEPTION_CONTINUE_EXECUTION\<close> resumes the body at
  the faulting access, anything else runs the handler, whose first statement is
  \<^verbatim>\<open>rmsAssert(false, ...)\<close>. Nothing bounds the number of resumptions, so the statement
  need not terminate: \<open>None\<close> is the run that faults and resumes forever.
\<close>

partial_function (option) try_construct ::
  "os_policy \<Rightarrow> size_t \<Rightarrow> addr \<Rightarrow> 'a \<Rightarrow> addr list \<Rightarrow> VirtualMemory \<Rightarrow> 'a vmem \<Rightarrow>
     (addr, VirtualMemory \<times> 'a vmem) outcome option" where
  "try_construct os sizeofT dest v touches this m =
     (case first_fault m sizeofT dest touches of
        None \<Rightarrow> Some (Return dest (this, m\<lparr>content := (content m)(dest \<mapsto> v)\<rparr>))
      | Some fault \<Rightarrow>
          (case PageFaultExceptionFilter os sizeofT EXCEPTION_ACCESS_VIOLATION dest m of
             (disposition, m1) \<Rightarrow>
               if disposition = EXCEPTION_CONTINUE_EXECUTION
               then try_construct os sizeofT dest v touches this m1
               else Some (Fatal Assert_failed (this, m1))))"

declare try_construct.simps [code]

definition emplace_back ::
  "platform \<Rightarrow> os_policy \<Rightarrow> size_t \<Rightarrow> VirtualMemory \<times> 'a vmem \<Rightarrow> 'a \<Rightarrow> addr list \<Rightarrow>
     (addr, VirtualMemory \<times> 'a vmem) outcome option" where
  "emplace_back pf os sizeofT = (\<lambda>(this, m) v touches.
     if m_count this < m_capacity this
     then
       (let dest = slot sizeofT this (m_count this);
            this1 = this\<lparr>m_count := m_count this + 1\<rparr>
        in case pf of
             WINDOWS \<Rightarrow> try_construct os sizeofT dest v touches this1 m
           | POSIX \<Rightarrow>
               (case first_fault m sizeofT dest touches of
                  None \<Rightarrow> Some (Return dest (this1, m\<lparr>content := (content m)(dest \<mapsto> v)\<rparr>))
                | Some fault \<Rightarrow> Some (Fatal Segfault (this1, m))))
     else Some (Fatal Assert_failed (this, m)))"

subsection \<open>Sequences of operations\<close>

text \<open>
  The life of an instance is the constructor followed by a sequence of calls. A call that
  ends the process ends the run; the states a client can observe are the final states of
  the runs.
\<close>

datatype 'a op =
    Emplace_back 'a "addr list"
  | Index size_t
  | Index_const size_t
  | Reset_op

fun discard :: "('r, 's) outcome \<Rightarrow> (unit, 's) outcome" where
  "discard (Fatal e s) = Fatal e s"
| "discard (Return r s) = Return () s"

fun step ::
  "platform \<Rightarrow> os_policy \<Rightarrow> size_t \<Rightarrow> 'a op \<Rightarrow> VirtualMemory \<times> 'a vmem \<Rightarrow>
     (unit, VirtualMemory \<times> 'a vmem) outcome option" where
  "step pf os sizeofT (Emplace_back v touches) s =
     map_option discard (emplace_back pf os sizeofT s v touches)"
| "step pf os sizeofT (Index i) s = Some (discard (operator_index sizeofT s i))"
| "step pf os sizeofT (Index_const i) s = Some (discard (operator_index_const sizeofT s i))"
| "step pf os sizeofT Reset_op s = Some (Reset pf os sizeofT s)"

fun run ::
  "platform \<Rightarrow> os_policy \<Rightarrow> size_t \<Rightarrow> 'a op list \<Rightarrow> VirtualMemory \<times> 'a vmem \<Rightarrow>
     (unit, VirtualMemory \<times> 'a vmem) outcome option" where
  "run pf os sizeofT [] s = Some (Return () s)"
| "run pf os sizeofT (x # xs) s =
     (case step pf os sizeofT x s of
        None \<Rightarrow> None
      | Some (Fatal e s1) \<Rightarrow> Some (Fatal e s1)
      | Some (Return r s1) \<Rightarrow> run pf os sizeofT xs s1)"

text \<open>The values appended since the last \<^verbatim>\<open>Reset\<close>, oldest first.\<close>

fun appended :: "'a list \<Rightarrow> 'a op list \<Rightarrow> 'a list" where
  "appended vs [] = vs"
| "appended vs (Emplace_back v touches # xs) = appended (vs @ [v]) xs"
| "appended vs (Reset_op # xs) = appended [] xs"
| "appended vs (Index i # xs) = appended vs xs"
| "appended vs (Index_const i # xs) = appended vs xs"

subsection \<open>Example environments\<close>

text \<open>
  An empty address space, and a system that places every reservation at address
  \<open>0x10000\<close> and grants every request.
\<close>

definition empty_vmem :: "nat vmem" where
  "empty_vmem = \<lparr>pages = (\<lambda>p. Free), allocs = (\<lambda>a. None), content = (\<lambda>a. None), calls = []\<rparr>"

definition generous_os :: os_policy where
  "generous_os = \<lparr>place = (\<lambda>h len. Some 0x10000), grant = (\<lambda>h c. True)\<rparr>"

text \<open>
  A system that grants a request only while fewer than three calls have been made, and
  one that grants nothing.
\<close>

definition grudging_os :: os_policy where
  "grudging_os = \<lparr>place = (\<lambda>h len. Some 0x10000), grant = (\<lambda>h c. length h < 3)\<rparr>"

definition stingy_os :: os_policy where
  "stingy_os = \<lparr>place = (\<lambda>h len. Some 0x10000), grant = (\<lambda>h c. False)\<rparr>"

text \<open>
  The address space after \<^verbatim>\<open>VirtualMemory<T>(3)\<close> with \<open>sizeof(T) = 8\<close> on Windows: 24
  bytes reserved at \<open>0x10000\<close>, that is page 16, nothing committed.
\<close>

definition reserved_vmem :: "nat vmem" where
  "reserved_vmem =
     empty_vmem\<lparr>pages := (pages empty_vmem)(16 := Reserved),
                allocs := (allocs empty_vmem)(0x10000 \<mapsto> 24),
                calls := [VirtualAlloc_RESERVE 24]\<rparr>"

text \<open>The instance the constructor builds for capacity 0: no address range, nothing stored.\<close>

definition null_instance :: VirtualMemory where
  "null_instance = \<lparr>m_memory = 0, m_capacity = 0, m_count = 0\<rparr>"

text \<open>Whether the system can place a new reservation of \<open>len\<close> bytes.\<close>

definition os_reserves :: "os_policy \<Rightarrow> 'a vmem \<Rightarrow> size_t \<Rightarrow> bool" where
  "os_reserves os m len =
     (case place os (calls m) len of None \<Rightarrow> False | Some a \<Rightarrow> valid_placement m a len)"

subsection \<open>The stored elements\<close>

text \<open>
  The relation between an instance and the list \<open>vs\<close> of values it holds: the count is
  the length of the list, the slots of the list lie below the end of the address space
  without wrapping around, and slot \<open>i\<close> holds the \<open>i\<close>-th value.
\<close>

definition stores :: "size_t \<Rightarrow> 'a list \<Rightarrow> VirtualMemory \<times> 'a vmem \<Rightarrow> bool" where
  "stores sizeofT vs = (\<lambda>(this, m).
     unat (m_count this) = length vs \<and>
     m_count this \<le> m_capacity this \<and>
     (m_capacity this \<noteq> 0 \<longrightarrow> sizeofT \<noteq> 0) \<and>
     unat (m_memory this) + length vs * unat sizeofT \<le> 2 ^ 64 \<and>
     (\<forall>i < length vs. content m (m_memory this + of_nat i * sizeofT) = Some (vs ! i)))"

subsection \<open>The reservation\<close>

text \<open>
  What an instance with a base address owns: the pages of its byte range are pages the
  system hands out, none of them is free (on POSIX all are readable and writable), and on
  Windows the reservation is recorded under the base address with the length the
  constructor asked for.
\<close>

definition owns :: "platform \<Rightarrow> size_t \<Rightarrow> VirtualMemory \<times> 'a vmem \<Rightarrow> bool" where
  "owns pf sizeofT = (\<lambda>(this, m).
     m_memory this \<noteq> 0 \<longrightarrow>
       m_memory this \<noteq> MAP_FAILED \<and>
       list_all (\<lambda>p. usable p \<and> pages m p \<noteq> Free \<and> (pf = POSIX \<longrightarrow> pages m p = Committed))
         (page_range (m_memory this) (sizeofT * m_capacity this)) \<and>
       (pf = WINDOWS \<longrightarrow> allocs m (m_memory this) = Some (sizeofT * m_capacity this)))"

subsection \<open>What a guarded construction leaves behind\<close>

text \<open>
  The postcondition of the \<^verbatim>\<open>__try\<close> statement: the object is the one it was given, the
  table of reservations is untouched, no page is freed or decommitted and no free page
  becomes mapped, and the value is stored in an accessible slot exactly when the
  statement completes.
\<close>

definition tc_post ::
  "size_t \<Rightarrow> addr \<Rightarrow> 'a \<Rightarrow> addr list \<Rightarrow> VirtualMemory \<Rightarrow> 'a vmem \<Rightarrow>
    (addr, VirtualMemory \<times> 'a vmem) outcome \<Rightarrow> bool" where
  "tc_post sizeofT dest v touches this m out =
     (fst (state_of out) = this \<and>
      allocs (snd (state_of out)) = allocs m \<and>
      (\<forall>p. pages m p \<noteq> Free \<longrightarrow> pages (snd (state_of out)) p \<noteq> Free) \<and>
      (\<forall>p. pages m p = Committed \<longrightarrow> pages (snd (state_of out)) p = Committed) \<and>
      (\<forall>p. pages m p = Free \<longrightarrow> pages (snd (state_of out)) p = Free) \<and>
      (case out of
         Return a s \<Rightarrow> a = dest \<and> content (snd s) = (content m)(dest \<mapsto> v) \<and>
                       accessible (snd s) dest sizeofT
       | Fatal e s \<Rightarrow> e = Assert_failed \<and> content (snd s) = content m))"

section \<open>Properties\<close>

subsection \<open>The guarded construction\<close>

lemma first_fault_None:
  "first_fault m sizeofT dest touches = None \<longleftrightarrow>
     list_all (\<lambda>a. accessible m a 1) touches \<and> accessible m dest sizeofT"
proof -
  have a: "find (\<lambda>a. \<not> accessible m a 1) touches = None \<longleftrightarrow>
           list_all (\<lambda>a. accessible m a 1) touches"
    by (auto simp: find_None_iff list_all_iff)
  have b: "find (\<lambda>p. \<not> (usable p \<and> pages m p = Committed)) (page_range dest sizeofT) = None
           \<longleftrightarrow> accessible m dest sizeofT"
    unfolding accessible_def find_None_iff list_all_iff by blast
  show ?thesis
    unfolding first_fault_def using a b
    by (cases "find (\<lambda>a. \<not> accessible m a 1) touches";
        cases "find (\<lambda>p. \<not> (usable p \<and> pages m p = Committed)) (page_range dest sizeofT)";
        simp)
qed

lemma filter_effect:
  assumes "PageFaultExceptionFilter os sizeofT dwCode target m = (d, m1)"
  shows "content m1 = content m \<and> allocs m1 = allocs m \<and>
         (\<forall>p. pages m p \<noteq> Free \<longrightarrow> pages m1 p \<noteq> Free) \<and>
         (\<forall>p. pages m p = Committed \<longrightarrow> pages m1 p = Committed) \<and>
         (\<forall>p. pages m p = Free \<longrightarrow> pages m1 p = Free)"
  using assms
  by (auto simp: PageFaultExceptionFilter_def VirtualAlloc_commit_def Let_def log_call_def
      set_pages_def list_all_iff split: if_splits)

lemma try_construct_post:
  assumes "try_construct os sizeofT dest v touches this m = Some out"
  shows "tc_post sizeofT dest v touches this m out"
proof (rule try_construct.raw_induct[where P = "\<lambda>os. tc_post", OF _ assms])
  fix tc :: "os_policy \<Rightarrow> size_t \<Rightarrow> addr \<Rightarrow> 'a \<Rightarrow> addr list \<Rightarrow> VirtualMemory \<Rightarrow> 'a vmem \<Rightarrow>
     (addr, VirtualMemory \<times> 'a vmem) outcome option"
  fix os sizeofT dest v touches this m out
  assume IH: "\<And>os sizeofT dest v touches this m out.
      tc os sizeofT dest v touches this m = Some out \<Longrightarrow> tc_post sizeofT dest v touches this m out"
  assume body: "(case first_fault m sizeofT dest touches of
        None \<Rightarrow> Some (Return dest (this, m\<lparr>content := (content m)(dest \<mapsto> v)\<rparr>))
      | Some fault \<Rightarrow>
          (case PageFaultExceptionFilter os sizeofT EXCEPTION_ACCESS_VIOLATION dest m of
             (disposition, m1) \<Rightarrow>
               if disposition = EXCEPTION_CONTINUE_EXECUTION
               then tc os sizeofT dest v touches this m1
               else Some (Fatal Assert_failed (this, m1)))) = Some out"
  show "tc_post sizeofT dest v touches this m out"
  proof (cases "first_fault m sizeofT dest touches")
    case None
    then have "accessible m dest sizeofT" by (simp add: first_fault_None)
    with None body show ?thesis by (auto simp: tc_post_def accessible_def)
  next
    case (Some fault)
    obtain d m1 where f: "PageFaultExceptionFilter os sizeofT EXCEPTION_ACCESS_VIOLATION dest m = (d, m1)"
      by (cases "PageFaultExceptionFilter os sizeofT EXCEPTION_ACCESS_VIOLATION dest m")
    note eff = filter_effect[OF f]
    show ?thesis
    proof (cases "d = EXCEPTION_CONTINUE_EXECUTION")
      case True
      with Some f body have "tc os sizeofT dest v touches this m1 = Some out" by simp
      from IH[OF this] eff show ?thesis
        by (auto simp: tc_post_def split: outcome.splits)
    next
      case False
      with Some f body have "out = Fatal Assert_failed (this, m1)" by simp
      with eff show ?thesis by (simp add: tc_post_def)
    qed
  qed
qed

lemma try_construct_this:
  assumes "try_construct os sizeofT dest v touches this m = Some out"
  shows "fst (state_of out) = this"
  using try_construct_post[OF assms] by (simp add: tc_post_def)

subsection \<open>Frame: what no operation changes\<close>

lemma emplace_back_frame:
  assumes "emplace_back pf os sizeofT (this, m) v touches = Some out"
  shows "m_memory (fst (state_of out)) = m_memory this \<and> m_capacity (fst (state_of out)) = m_capacity this"
proof (cases "m_count this < m_capacity this")
  case False
  with assms show ?thesis by (auto simp: emplace_back_def)
next
  case True
  show ?thesis
  proof (cases pf)
    case WINDOWS
    with True assms have "fst (state_of out) = this\<lparr>m_count := m_count this + 1\<rparr>"
      by (auto simp: emplace_back_def Let_def dest: try_construct_this)
    then show ?thesis by simp
  next
    case POSIX
    with True assms show ?thesis
      by (auto simp: emplace_back_def Let_def split: option.splits)
  qed
qed

lemma Reset_frame:
  "m_memory (fst (state_of (Reset pf os sizeofT (this, m)))) = m_memory this \<and>
   m_capacity (fst (state_of (Reset pf os sizeofT (this, m)))) = m_capacity this"
  by (auto simp: Reset_def Let_def split: platform.splits prod.splits)

lemma operator_index_state:
  "state_of (operator_index sizeofT s i) = s" "state_of (operator_index_const sizeofT s i) = s"
  by (cases s; simp add: operator_index_def operator_index_const_def)+

lemma state_of_discard: "state_of (discard out) = state_of out"
  by (cases out) simp_all

lemma step_frame:
  assumes "step pf os sizeofT x s = Some out"
  shows "m_memory (fst (state_of out)) = m_memory (fst s) \<and> m_capacity (fst (state_of out)) = m_capacity (fst s)"
proof (cases x)
  case (Emplace_back v touches)
  with assms obtain o1 where "emplace_back pf os sizeofT (fst s, snd s) v touches = Some o1" "out = discard o1"
    by auto
  then show ?thesis using emplace_back_frame[of pf os sizeofT "fst s" "snd s" v touches o1]
    by (simp add: state_of_discard)
next
  case (Index i)
  with assms show ?thesis by (auto simp: state_of_discard operator_index_state)
next
  case (Index_const i)
  with assms show ?thesis by (auto simp: state_of_discard operator_index_state)
next
  case Reset_op
  with assms show ?thesis using Reset_frame[of pf os sizeofT "fst s" "snd s"] by auto
qed

lemma run_frame:
  assumes "run pf os sizeofT ops s = Some out"
  shows "m_memory (fst (state_of out)) = m_memory (fst s) \<and> m_capacity (fst (state_of out)) = m_capacity (fst s)"
  using assms
proof (induction ops arbitrary: s)
  case Nil
  then show ?case by auto
next
  case (Cons x xs)
  from Cons.prems obtain o1 where o1: "step pf os sizeofT x s = Some o1"
    by (auto split: option.splits)
  show ?case
  proof (cases o1)
    case (Fatal e s1)
    with o1 Cons.prems have "out = o1" by simp
    with o1 show ?thesis using step_frame by blast
  next
    case (Return r s1)
    with o1 Cons.prems have "run pf os sizeofT xs s1 = Some out" by simp
    from Cons.IH[OF this] step_frame[OF o1] Return show ?thesis by simp
  qed
qed

lemma ctor_fields:
  assumes "VirtualMemory_ctor pf os sizeofT cap m = Return this m1"
  shows "m_capacity this = cap \<and> m_count this = 0"
  using assms
  by (auto simp: VirtualMemory_ctor_def Let_def split: if_splits platform.splits prod.splits)

subsection \<open>The element count\<close>

lemma capacity_and_base_never_change_aux:
  assumes "VirtualMemory_ctor pf os sizeofT cap m0 = Return this0 m1"
      and "run pf os sizeofT ops (this0, m1) = Some out"
  shows "capacity (fst (state_of out)) = cap"
  using run_frame[OF assms(2)] ctor_fields[OF assms(1)] by (simp add: capacity_def)

lemma unat_inc_below:
  "i < m \<Longrightarrow> unat (i + 1) = unat i + 1" for i m :: "'a::len word"
  by unat_arith

lemma emplace_back_count:
  assumes "emplace_back pf os sizeofT (this, m) v touches = Some out"
  shows "(returned out \<longrightarrow> m_count this < m_capacity this \<and>
            m_count (fst (state_of out)) = m_count this + 1) \<and>
         (m_count this \<le> m_capacity this \<longrightarrow>
            m_count (fst (state_of out)) \<le> m_capacity (fst (state_of out)))"
proof (cases "m_count this < m_capacity this")
  case False
  with assms show ?thesis by (auto simp: emplace_back_def)
next
  case True
  then have le: "m_count this + 1 \<le> m_capacity this"
    by (simp add: inc_le)
  show ?thesis
  proof (cases pf)
    case WINDOWS
    with True assms have "fst (state_of out) = this\<lparr>m_count := m_count this + 1\<rparr>"
      by (auto simp: emplace_back_def Let_def dest: try_construct_this)
    with True le show ?thesis by simp
  next
    case POSIX
    with True le assms show ?thesis
      by (auto simp: emplace_back_def Let_def split: option.splits)
  qed
qed

lemma Reset_count:
  "returned (Reset pf os sizeofT (this, m)) \<longrightarrow> m_count (fst (state_of (Reset pf os sizeofT (this, m)))) = 0"
  "m_count this \<le> m_capacity this \<longrightarrow>
     m_count (fst (state_of (Reset pf os sizeofT (this, m)))) \<le> m_capacity (fst (state_of (Reset pf os sizeofT (this, m))))"
  by (auto simp: Reset_def Let_def split: platform.splits prod.splits)

lemma step_count_le:
  assumes "step pf os sizeofT x s = Some out" and "m_count (fst s) \<le> m_capacity (fst s)"
  shows "m_count (fst (state_of out)) \<le> m_capacity (fst (state_of out))"
proof (cases x)
  case (Emplace_back v touches)
  with assms obtain o1 where "emplace_back pf os sizeofT (fst s, snd s) v touches = Some o1" "out = discard o1"
    by auto
  then show ?thesis using emplace_back_count[of pf os sizeofT "fst s" "snd s" v touches o1] assms(2)
    by (simp add: state_of_discard)
next
  case (Index i)
  with assms show ?thesis by (auto simp: state_of_discard operator_index_state)
next
  case (Index_const i)
  with assms show ?thesis by (auto simp: state_of_discard operator_index_state)
next
  case Reset_op
  with assms show ?thesis using Reset_count(2)[of "fst s" pf os sizeofT "snd s"] by auto
qed

lemma run_count_le:
  assumes "run pf os sizeofT ops s = Some out" and "m_count (fst s) \<le> m_capacity (fst s)"
  shows "m_count (fst (state_of out)) \<le> m_capacity (fst (state_of out))"
  using assms
proof (induction ops arbitrary: s)
  case Nil
  then show ?case by auto
next
  case (Cons x xs)
  from Cons.prems obtain o1 where o1: "step pf os sizeofT x s = Some o1"
    by (auto split: option.splits)
  show ?case
  proof (cases o1)
    case (Fatal e s1)
    with o1 Cons.prems have "out = o1" by simp
    with o1 Cons.prems(2) show ?thesis using step_count_le by blast
  next
    case (Return r s1)
    with o1 Cons.prems have r: "run pf os sizeofT xs s1 = Some out" by simp
    from step_count_le[OF o1 Cons.prems(2)] Return have "m_count (fst s1) \<le> m_capacity (fst s1)" by simp
    from Cons.IH[OF r this] show ?thesis .
  qed
qed

lemma ctor_null_iff:
  assumes "VirtualMemory_ctor pf os sizeofT cap m = Return this m1"
  shows "m_memory this = 0 \<longleftrightarrow> cap = 0"
  using assms
  by (auto simp: VirtualMemory_ctor_def Let_def mmap_anonymous_def valid_placement_def
      split: if_splits platform.splits prod.splits option.splits)

subsection \<open>The instance without a reservation\<close>

lemma step_null_instance:
  assumes "step pf os sizeofT x (null_instance, m) = Some out"
  shows "state_of out = (null_instance, m)"
proof (cases x)
  case (Emplace_back v touches)
  with assms show ?thesis by (auto simp: emplace_back_def null_instance_def)
next
  case (Index i)
  with assms show ?thesis by (auto simp: state_of_discard operator_index_state)
next
  case (Index_const i)
  with assms show ?thesis by (auto simp: state_of_discard operator_index_state)
next
  case Reset_op
  with assms show ?thesis by (auto simp: Reset_def null_instance_def)
qed

lemma run_null_instance:
  assumes "run pf os sizeofT ops (null_instance, m) = Some out"
  shows "state_of out = (null_instance, m)"
  using assms
proof (induction ops)
  case Nil
  then show ?case by auto
next
  case (Cons x xs)
  from Cons.prems obtain o1 where o1: "step pf os sizeofT x (null_instance, m) = Some o1"
    by (auto split: option.splits)
  note s = step_null_instance[OF o1]
  show ?case
  proof (cases o1)
    case (Fatal e s1)
    with o1 Cons.prems s show ?thesis by simp
  next
    case (Return r s1)
    with o1 Cons.prems s have "run pf os sizeofT xs (null_instance, m) = Some out" by simp
    then show ?thesis by (rule Cons.IH)
  qed
qed

lemma valid_placement_not_failed:
  assumes "valid_placement m a len"
  shows "a \<noteq> MAP_FAILED" and "a \<noteq> 0"
proof -
  have "unat (- 1 :: 64 word) = 18446744073709551615"
    by (simp add: unsigned_minus_1_eq_mask mask_eq_exp_minus_1)
  then have "unat (- 1 :: 64 word) mod PAGE_SIZE \<noteq> 0"
    by (simp add: PAGE_SIZE_def)
  with assms show "a \<noteq> MAP_FAILED" by (auto simp: valid_placement_def MAP_FAILED_def)
  from assms show "a \<noteq> 0" by (simp add: valid_placement_def)
qed

subsection \<open>Slots do not overlap\<close>

lemma accessible_bounds:
  assumes "len \<noteq> 0" and "accessible m a len"
  shows "PAGE_SIZE \<le> unat a" and "unat a + unat len \<le> 2 ^ 64"
proof -
  let ?lo = "unat a div PAGE_SIZE"
  let ?hi = "(unat a + unat len - 1) div PAGE_SIZE"
  from assms(1) have pos: "0 < unat len" by (simp add: unat_gt_0)
  then have "?lo \<le> ?hi" by (simp add: div_le_mono)
  then have "?lo \<in> set (page_range a len)" "?hi \<in> set (page_range a len)"
    using assms(1) by (auto simp: page_range_def)
  with assms(2) have u: "usable ?lo" "usable ?hi"
    by (simp_all add: accessible_def list_all_iff)
  from u(1) show "PAGE_SIZE \<le> unat a"
    by (simp add: usable_def div_greater_zero_iff)
  from u(2) have "(unat a + unat len - 1) div 4096 < (2 ^ 52 :: nat)"
    by (simp add: usable_def PAGE_SIZE_def)
  then have "unat a + unat len - 1 < 2 ^ 52 * (4096 :: nat)"
    by (simp only: div_less_iff_less_mult[of 4096, simplified])
  then have "unat a + unat len - 1 < 2 ^ 64" by simp
  with pos show "unat a + unat len \<le> 2 ^ 64" by simp
qed

lemma unat_slot:
  assumes "unat a + i * unat s < 2 ^ 64"
  shows "unat (a + of_nat i * s :: 64 word) = unat a + i * unat s"
proof -
  have "unat (a + of_nat i * s) = (unat a + (i mod 2 ^ 64 * unat s) mod 2 ^ 64) mod 2 ^ 64"
    by (simp add: unat_word_ariths unat_of_nat)
  also have "\<dots> = (unat a + i * unat s) mod 2 ^ 64"
    by (simp add: mod_add_right_eq mod_mult_left_eq)
  also have "\<dots> = unat a + i * unat s" using assms by simp
  finally show ?thesis .
qed

lemma emplace_back_Return:
  assumes "emplace_back pf os sizeofT (this, m) v touches = Some (Return a (this1, m1))"
  shows "m_count this < m_capacity this" and "a = slot sizeofT this (m_count this)"
    and "this1 = this\<lparr>m_count := m_count this + 1\<rparr>"
    and "content m1 = (content m)(a \<mapsto> v)" and "accessible m1 a sizeofT"
proof -
  show lt: "m_count this < m_capacity this"
    using assms by (auto simp: emplace_back_def split: if_splits)
  let ?dest = "slot sizeofT this (m_count this)"
  let ?this1 = "this\<lparr>m_count := m_count this + 1\<rparr>"
  have "a = ?dest \<and> this1 = ?this1 \<and> content m1 = (content m)(a \<mapsto> v) \<and> accessible m1 a sizeofT"
  proof (cases pf)
    case WINDOWS
    with lt assms
    have "try_construct os sizeofT ?dest v touches ?this1 m = Some (Return a (this1, m1))"
      by (simp add: emplace_back_def Let_def)
    from try_construct_post[OF this] show ?thesis by (simp add: tc_post_def)
  next
    case POSIX
    with lt assms have n: "first_fault m sizeofT ?dest touches = None"
      and r: "a = ?dest" "this1 = ?this1" "m1 = m\<lparr>content := (content m)(?dest \<mapsto> v)\<rparr>"
      by (auto simp: emplace_back_def Let_def split: option.splits)
    from n have "accessible m ?dest sizeofT" by (simp add: first_fault_None)
    with r show ?thesis by (simp add: accessible_def)
  qed
  then show "a = ?dest" "this1 = ?this1" "content m1 = (content m)(a \<mapsto> v)" "accessible m1 a sizeofT"
    by blast+
qed

lemma stores_emplace_back:
  assumes s: "stores sizeofT vs (this, m)"
      and e: "emplace_back pf os sizeofT (this, m) v touches = Some (Return a (this1, m1))"
  shows "stores sizeofT (vs @ [v]) (this1, m1)"
proof -
  note r = emplace_back_Return[OF e]
  let ?n = "length vs"
  from s have n: "unat (m_count this) = ?n" and le: "m_count this \<le> m_capacity this"
    and z: "m_capacity this \<noteq> 0 \<longrightarrow> sizeofT \<noteq> 0"
    and fit: "unat (m_memory this) + ?n * unat sizeofT \<le> 2 ^ 64"
    and old: "\<forall>i < ?n. content m (m_memory this + of_nat i * sizeofT) = Some (vs ! i)"
    by (simp_all add: stores_def)
  from r(1) have "m_capacity this \<noteq> 0" by auto
  with z have nz: "sizeofT \<noteq> 0" by simp
  then have spos: "0 < unat sizeofT" by (simp add: unat_gt_0)
  have a: "a = m_memory this + of_nat ?n * sizeofT"
    using r(2) n by (simp add: slot_def flip: n)
  note b = accessible_bounds[OF nz r(5)]
  have "unat (m_memory this) + ?n * unat sizeofT \<noteq> 2 ^ 64"
  proof
    assume eq: "unat (m_memory this) + ?n * unat sizeofT = 2 ^ 64"
    have "unat a = (unat (m_memory this) + (?n mod 2 ^ 64 * unat sizeofT) mod 2 ^ 64) mod 2 ^ 64"
      unfolding a by (simp add: unat_word_ariths unat_of_nat)
    also have "\<dots> = (unat (m_memory this) + ?n * unat sizeofT) mod 2 ^ 64"
      by (simp add: mod_add_right_eq mod_mult_left_eq)
    also have "\<dots> = 0" using eq by simp
    finally show False using b(1) by (simp add: PAGE_SIZE_def)
  qed
  with fit have lt: "unat (m_memory this) + ?n * unat sizeofT < 2 ^ 64" by simp
  then have ua: "unat a = unat (m_memory this) + ?n * unat sizeofT"
    unfolding a by (rule unat_slot)
  have c1: "unat (m_count this1) = length (vs @ [v])"
    using r(1,3) n by (simp add: unat_inc_below)
  have c2: "m_count this1 \<le> m_capacity this1"
    using r(1,3) by (simp add: inc_le)
  have c3: "m_capacity this1 \<noteq> 0 \<longrightarrow> sizeofT \<noteq> 0" using nz by simp
  have c4: "unat (m_memory this1) + length (vs @ [v]) * unat sizeofT \<le> 2 ^ 64"
    using b(2) ua r(3) by simp
  have c5: "content m1 (m_memory this1 + of_nat i * sizeofT) = Some ((vs @ [v]) ! i)"
    if "i < length (vs @ [v])" for i
  proof (cases "i < ?n")
    case True
    then have il: "unat (m_memory this) + i * unat sizeofT < unat (m_memory this) + ?n * unat sizeofT"
      using spos by simp
    from il lt have "unat (m_memory this) + i * unat sizeofT < 2 ^ 64"
      by (rule less_trans)
    then have "unat (m_memory this + of_nat i * sizeofT) = unat (m_memory this) + i * unat sizeofT"
      by (rule unat_slot)
    with ua True spos have "m_memory this + of_nat i * sizeofT \<noteq> a"
      by (metis add_left_cancel mult_cancel2 nat_neq_iff)
    with True old r(3,4) show ?thesis by (simp add: nth_append)
  next
    case False
    with that have "i = ?n" by simp
    with r(3,4) a show ?thesis by simp
  qed
  from c1 c2 c3 c4 c5 show ?thesis
    unfolding stores_def by blast
qed

lemma unat_addr_le: "unat (a :: 64 word) \<le> 2 ^ 64"
  using unsigned_less[of a, where 'a = nat] by simp

lemma stores_Reset:
  assumes "stores sizeofT vs (this, m)" and "Reset pf os sizeofT (this, m) = Return () s1"
  shows "stores sizeofT [] s1"
proof -
  from assms(2) obtain m1 where "s1 = (this\<lparr>m_count := 0\<rparr>, m1)"
    by (auto simp: Reset_def Let_def split: if_splits platform.splits prod.splits)
  with assms(1) show ?thesis
    using unat_addr_le[of "m_memory this"] by (simp add: stores_def)
qed

lemma stores_step:
  assumes "stores sizeofT vs s" and "step pf os sizeofT x s = Some (Return r s1)"
  shows "stores sizeofT (appended vs [x]) s1"
proof (cases x)
  case (Emplace_back v touches)
  with assms(2) obtain a where "emplace_back pf os sizeofT (fst s, snd s) v touches = Some (Return a (fst s1, snd s1))"
    by (cases s; cases s1; auto elim: discard.elims)
  from stores_emplace_back[OF _ this] assms(1) Emplace_back show ?thesis by simp
next
  case (Index i)
  with assms have "s1 = s" 
    by (cases s; auto simp: operator_index_def split: if_splits)
  with assms(1) Index show ?thesis by simp
next
  case (Index_const i)
  with assms have "s1 = s" 
    by (cases s; auto simp: operator_index_const_def split: if_splits)
  with assms(1) Index_const show ?thesis by simp
next
  case Reset_op
  with assms(2) have "Reset pf os sizeofT (fst s, snd s) = Return () s1" by simp
  from stores_Reset[OF _ this] assms(1) Reset_op show ?thesis by simp
qed

lemma appended_Cons: "appended vs (x # xs) = appended (appended vs [x]) xs"
  by (cases x) simp_all

lemma stores_run:
  assumes "stores sizeofT vs s" and "run pf os sizeofT ops s = Some (Return r s1)"
  shows "stores sizeofT (appended vs ops) s1"
  using assms
proof (induction ops arbitrary: vs s)
  case Nil
  then show ?case by simp
next
  case (Cons x xs)
  from Cons.prems(2) obtain r2 s2 where st: "step pf os sizeofT x s = Some (Return r2 s2)"
    and rest: "run pf os sizeofT xs s2 = Some (Return r s1)"
    by (auto split: option.splits outcome.splits)
  from stores_step[OF Cons.prems(1) st] have "stores sizeofT (appended vs [x]) s2" .
  from Cons.IH[OF this rest] show ?case by (simp add: appended_Cons[of vs x xs])
qed

lemma stores_ctor:
  assumes "VirtualMemory_ctor pf os sizeofT cap m0 = Return this0 m1"
  shows "stores sizeofT [] (this0, m1)"
proof -
  have c: "m_capacity this0 = cap" "m_count this0 = 0" using ctor_fields[OF assms] by simp_all
  have "sizeofT \<noteq> 0" if "cap \<noteq> 0"
    using assms that
    by (auto simp: VirtualMemory_ctor_def Let_def VirtualAlloc_reserve_def mmap_anonymous_def
        valid_placement_def MAP_FAILED_def
        split: platform.splits option.splits prod.splits if_splits)
  with c show ?thesis
    using unat_addr_le[of "m_memory this0"] by (simp add: stores_def)
qed

subsection \<open>The fault handler\<close>

lemma commit_effect:
  assumes "fst (VirtualAlloc_commit os target len m) \<noteq> 0"
  shows "accessible (snd (VirtualAlloc_commit os target len m)) target len"
    and "calls (snd (VirtualAlloc_commit os target len m)) = calls m @ [VirtualAlloc_COMMIT target len]"
    and "content (snd (VirtualAlloc_commit os target len m)) = content m"
    and "accessible m a n \<Longrightarrow> accessible (snd (VirtualAlloc_commit os target len m)) a n"
  using assms
  by (auto simp: VirtualAlloc_commit_def Let_def log_call_def accessible_def set_pages_def
      list_all_iff split: if_splits)

lemma filter_disposition:
  "fst (PageFaultExceptionFilter os sizeofT dwCode target m) =
     (if dwCode = EXCEPTION_ACCESS_VIOLATION \<and> fst (VirtualAlloc_commit os target sizeofT m) \<noteq> 0
      then EXCEPTION_CONTINUE_EXECUTION else EXCEPTION_EXECUTE_HANDLER)"
  "dwCode = EXCEPTION_ACCESS_VIOLATION \<Longrightarrow>
     snd (PageFaultExceptionFilter os sizeofT dwCode target m) =
     snd (VirtualAlloc_commit os target sizeofT m)"
  by (auto simp: PageFaultExceptionFilter_def split: prod.splits)

lemma dispositions_differ: "EXCEPTION_EXECUTE_HANDLER \<noteq> EXCEPTION_CONTINUE_EXECUTION"
  by (simp add: EXCEPTION_EXECUTE_HANDLER_def EXCEPTION_CONTINUE_EXECUTION_def)

lemma try_construct_fault:
  assumes "first_fault m sizeofT dest touches \<noteq> None"
  shows "try_construct os sizeofT dest v touches this m =
     (if fst (VirtualAlloc_commit os dest sizeofT m) \<noteq> 0
      then try_construct os sizeofT dest v touches this (snd (VirtualAlloc_commit os dest sizeofT m))
      else Some (Fatal Assert_failed (this, snd (VirtualAlloc_commit os dest sizeofT m))))"
proof -
  from assms obtain fault where f: "first_fault m sizeofT dest touches = Some fault" by auto
  obtain d m1 where p: "PageFaultExceptionFilter os sizeofT EXCEPTION_ACCESS_VIOLATION dest m = (d, m1)"
    by (cases "PageFaultExceptionFilter os sizeofT EXCEPTION_ACCESS_VIOLATION dest m")
  from p filter_disposition[where os = os and sizeofT = sizeofT
      and dwCode = EXCEPTION_ACCESS_VIOLATION and target = dest and m = m]
  have d: "d = (if fst (VirtualAlloc_commit os dest sizeofT m) \<noteq> 0
      then EXCEPTION_CONTINUE_EXECUTION else EXCEPTION_EXECUTE_HANDLER)"
    and m1: "m1 = snd (VirtualAlloc_commit os dest sizeofT m)"
    by simp_all
  show ?thesis
    by (subst try_construct.simps) (simp add: f p d m1 dispositions_differ)
qed

lemma try_construct_no_fault:
  assumes "first_fault m sizeofT dest touches = None"
  shows "try_construct os sizeofT dest v touches this m =
           Some (Return dest (this, m\<lparr>content := (content m)(dest \<mapsto> v)\<rparr>))"
  by (subst try_construct.simps) (simp add: assms)

lemma try_construct_benign:
  assumes t: "list_all (\<lambda>a. accessible m a 1) touches"
  shows "try_construct os sizeofT dest v touches this m =
          (if accessible m dest sizeofT
           then Some (Return dest (this, m\<lparr>content := (content m)(dest \<mapsto> v)\<rparr>))
           else if fst (VirtualAlloc_commit os dest sizeofT m) \<noteq> 0
           then Some (Return dest
                  (this, (snd (VirtualAlloc_commit os dest sizeofT m))\<lparr>content := (content m)(dest \<mapsto> v)\<rparr>))
           else Some (Fatal Assert_failed (this, snd (VirtualAlloc_commit os dest sizeofT m))))"
proof (cases "accessible m dest sizeofT")
  case True
  with t have "first_fault m sizeofT dest touches = None" by (simp add: first_fault_None)
  from try_construct_no_fault[OF this] True show ?thesis by simp
next
  case False
  let ?c = "VirtualAlloc_commit os dest sizeofT m"
  from False t have ff: "first_fault m sizeofT dest touches \<noteq> None" by (simp add: first_fault_None)
  note u = try_construct_fault[OF ff, of os v this]
  show ?thesis
  proof (cases "fst ?c = 0")
    case True
    with u False show ?thesis by simp
  next
    case ok: False
    from t commit_effect(4)[OF ok] have "list_all (\<lambda>a. accessible (snd ?c) a 1) touches"
      by (simp add: list_all_iff)
    with commit_effect(1)[OF ok] have "first_fault (snd ?c) sizeofT dest touches = None"
      by (simp add: first_fault_None)
    from try_construct_no_fault[OF this] u ok False commit_effect(3)[OF ok]
    show ?thesis by simp
  qed
qed

subsection \<open>The reservation stays with the instance\<close>

lemma valid_placement_usable:
  assumes "valid_placement m a len" and "p \<in> set (page_range a len)"
  shows "usable p"
proof -
  from assms(1) have nz: "len \<noteq> 0" "a \<noteq> 0" and al: "unat a mod PAGE_SIZE = 0"
    and fit: "unat a + unat len \<le> 2 ^ 64"
    by (simp_all add: valid_placement_def)
  from nz(2) have "0 < unat a" by (simp add: unat_gt_0)
  with al have "PAGE_SIZE \<le> unat a"
    by (metis PAGE_SIZE_def mod_less not_less less_numeral_extra(3))
  then have lo: "1 \<le> unat a div PAGE_SIZE"
    by (simp add: PAGE_SIZE_def div_greater_zero_iff Suc_le_eq)
  from nz(1) have "0 < unat len" by (simp add: unat_gt_0)
  with fit have "unat a + unat len - 1 < 2 ^ 52 * (4096::nat)" by simp
  then have hi: "(unat a + unat len - 1) div PAGE_SIZE < 2 ^ 52"
    unfolding PAGE_SIZE_def by (simp only: div_less_iff_less_mult[of 4096, simplified])
  from assms(2) nz(1) have "unat a div PAGE_SIZE \<le> p" "p \<le> (unat a + unat len - 1) div PAGE_SIZE"
    by (auto simp: page_range_def)
  with lo hi show ?thesis by (simp add: usable_def)
qed

lemma owns_ctor:
  assumes "VirtualMemory_ctor pf os sizeofT cap m0 = Return this0 m1"
  shows "owns pf sizeofT (this0, m1)"
proof (cases "cap = 0")
  case True
  with assms show ?thesis by (auto simp: VirtualMemory_ctor_def owns_def)
next
  case False
  show ?thesis
  proof (cases pf)
    case WINDOWS
    with False assms obtain a where p: "place os (calls m0) (sizeofT * cap) = Some a"
      and v: "valid_placement m0 a (sizeofT * cap)"
      and t: "this0 = \<lparr>m_memory = a, m_capacity = cap, m_count = 0\<rparr>"
      and m: "pages m1 = set_pages (page_range a (sizeofT * cap)) Reserved (pages m0)"
             "allocs m1 = (allocs m0)(a \<mapsto> sizeofT * cap)"
      by (auto simp: VirtualMemory_ctor_def Let_def VirtualAlloc_reserve_def log_call_def
          split: option.splits if_splits)
    from valid_placement_usable[OF v] valid_placement_not_failed[OF v] t m WINDOWS show ?thesis
      by (simp add: owns_def list_all_iff set_pages_def)
  next
    case POSIX
    with False assms obtain a where p: "place os (calls m0) (sizeofT * cap) = Some a"
      and v: "valid_placement m0 a (sizeofT * cap)"
      and t: "this0 = \<lparr>m_memory = a, m_capacity = cap, m_count = 0\<rparr>"
      and m: "pages m1 = set_pages (page_range a (sizeofT * cap)) Committed (pages m0)"
      by (auto simp: VirtualMemory_ctor_def Let_def mmap_anonymous_def log_call_def msync_def
          split: option.splits if_splits)
    from valid_placement_usable[OF v] valid_placement_not_failed[OF v] t m POSIX show ?thesis
      by (simp add: owns_def list_all_iff set_pages_def)
  qed
qed

lemma emplace_back_pages:
  assumes "emplace_back pf os sizeofT (this, m) v touches = Some (Return a (this1, m1))"
  shows "allocs m1 = allocs m"
    and "pages m p \<noteq> Free \<Longrightarrow> pages m1 p \<noteq> Free"
    and "pages m p = Committed \<Longrightarrow> pages m1 p = Committed"
proof -
  have lt: "m_count this < m_capacity this"
    using assms by (auto simp: emplace_back_def split: if_splits)
  let ?dest = "slot sizeofT this (m_count this)"
  let ?this1 = "this\<lparr>m_count := m_count this + 1\<rparr>"
  have "allocs m1 = allocs m \<and> (pages m p \<noteq> Free \<longrightarrow> pages m1 p \<noteq> Free) \<and>
        (pages m p = Committed \<longrightarrow> pages m1 p = Committed)"
  proof (cases pf)
    case WINDOWS
    with lt assms
    have "try_construct os sizeofT ?dest v touches ?this1 m = Some (Return a (this1, m1))"
      by (simp add: emplace_back_def Let_def)
    from try_construct_post[OF this] show ?thesis by (simp add: tc_post_def)
  next
    case POSIX
    with lt assms have "m1 = m\<lparr>content := (content m)(?dest \<mapsto> v)\<rparr>"
      by (auto simp: emplace_back_def Let_def split: option.splits)
    then show ?thesis by simp
  qed
  then show "allocs m1 = allocs m" "pages m p \<noteq> Free \<Longrightarrow> pages m1 p \<noteq> Free"
    "pages m p = Committed \<Longrightarrow> pages m1 p = Committed"
    by blast+
qed

lemma owns_emplace_back:
  assumes "owns pf sizeofT (this, m)"
      and e: "emplace_back pf os sizeofT (this, m) v touches = Some (Return a (this1, m1))"
  shows "owns pf sizeofT (this1, m1)"
proof -
  note r = emplace_back_Return[OF e] and q = emplace_back_pages[OF e]
  from r(3) have f: "m_memory this1 = m_memory this" "m_capacity this1 = m_capacity this" by simp_all
  show ?thesis
  proof (cases "m_memory this = 0")
    case True
    with f show ?thesis by (simp add: owns_def)
  next
    case False
    with assms(1) have nf: "m_memory this \<noteq> MAP_FAILED"
      and u: "\<forall>p \<in> set (page_range (m_memory this) (sizeofT * m_capacity this)).
               usable p \<and> pages m p \<noteq> Free \<and> (pf = POSIX \<longrightarrow> pages m p = Committed)"
      and al: "pf = WINDOWS \<longrightarrow> allocs m (m_memory this) = Some (sizeofT * m_capacity this)"
      by (simp_all add: owns_def list_all_iff)
    from u q(2,3) have "\<forall>p \<in> set (page_range (m_memory this) (sizeofT * m_capacity this)).
               usable p \<and> pages m1 p \<noteq> Free \<and> (pf = POSIX \<longrightarrow> pages m1 p = Committed)"
      by blast
    with nf al q(1) f show ?thesis by (simp add: owns_def list_all_iff)
  qed
qed

lemma owns_Reset:
  assumes "owns pf sizeofT (this, m)" and "Reset pf os sizeofT (this, m) = Return () (this1, m1)"
  shows "owns pf sizeofT (this1, m1)"
proof (cases "m_memory this = 0")
  case True
  with assms show ?thesis by (auto simp: Reset_def owns_def)
next
  case False
  with assms(1) have nf: "m_memory this \<noteq> MAP_FAILED"
    and u: "\<forall>p \<in> set (page_range (m_memory this) (sizeofT * m_capacity this)). usable p"
    and al: "pf = WINDOWS \<longrightarrow> allocs m (m_memory this) = Some (sizeofT * m_capacity this)"
    by (simp_all add: owns_def list_all_iff)
  show ?thesis
  proof (cases pf)
    case WINDOWS
    with al have a: "allocs m (m_memory this) = Some (sizeofT * m_capacity this)" by simp
    from False WINDOWS assms(2) a
    have t: "this1 = this\<lparr>m_count := 0\<rparr>"
      and m: "pages m1 = set_pages (page_range (m_memory this) (sizeofT * m_capacity this)) Reserved (pages m)"
        "allocs m1 = allocs m"
      by (auto simp: Reset_def VirtualFree_decommit_def Let_def log_call_def split: if_splits)
    from u nf a t m WINDOWS show ?thesis
      by (simp add: owns_def list_all_iff set_pages_def)
  next
    case POSIX
    from False POSIX assms(2) nf
    have t: "this1 = this\<lparr>m_count := 0\<rparr>"
      and m: "pages m1 = set_pages (page_range (m_memory this) (sizeofT * m_capacity this)) Committed (pages m)"
      by (auto simp: Reset_def mmap_fixed_def msync_def Let_def log_call_def MAP_FAILED_def
          split: if_splits)
    from u nf t m POSIX show ?thesis
      by (simp add: owns_def list_all_iff set_pages_def)
  qed
qed

lemma owns_step:
  assumes "owns pf sizeofT s" and "step pf os sizeofT x s = Some (Return r s1)"
  shows "owns pf sizeofT s1"
proof (cases x)
  case (Emplace_back v touches)
  with assms(2) obtain a where "emplace_back pf os sizeofT (fst s, snd s) v touches = Some (Return a (fst s1, snd s1))"
    by (cases s; cases s1; auto elim: discard.elims)
  from owns_emplace_back[OF _ this] assms(1) show ?thesis by simp
next
  case (Index i)
  with assms have "s1 = s"
    by (cases s; auto simp: operator_index_def split: if_splits)
  with assms(1) show ?thesis by simp
next
  case (Index_const i)
  with assms have "s1 = s"
    by (cases s; auto simp: operator_index_const_def split: if_splits)
  with assms(1) show ?thesis by simp
next
  case Reset_op
  with assms(2) have "Reset pf os sizeofT (fst s, snd s) = Return () (fst s1, snd s1)" by simp
  from owns_Reset[OF _ this] assms(1) show ?thesis by simp
qed

lemma owns_run:
  assumes "owns pf sizeofT s" and "run pf os sizeofT ops s = Some (Return r s1)"
  shows "owns pf sizeofT s1"
  using assms
proof (induction ops arbitrary: s)
  case Nil
  then show ?case by simp
next
  case (Cons x xs)
  from Cons.prems(2) obtain r2 s2 where st: "step pf os sizeofT x s = Some (Return r2 s2)"
    and rest: "run pf os sizeofT xs s2 = Some (Return r s1)"
    by (auto split: option.splits outcome.splits)
  from Cons.IH[OF owns_step[OF Cons.prems(1) st] rest] show ?case .
qed

lemma page_range_mono:
  assumes "unat len1 \<le> unat len2"
  shows "set (page_range a len1) \<subseteq> set (page_range a len2)"
proof (cases "len1 = 0")
  case True
  then show ?thesis by (simp add: page_range_def)
next
  case False
  then have "0 < unat len1" by (simp add: unat_gt_0)
  with assms have "len2 \<noteq> 0" by auto
  have "(unat a + unat len1 - 1) div PAGE_SIZE \<le> (unat a + unat len2 - 1) div PAGE_SIZE"
    using assms by (intro div_le_mono) simp
  with False \<open>len2 \<noteq> 0\<close> show ?thesis by (auto simp: page_range_def)
qed

lemma Reset_Return:
  assumes "Reset pf os sizeofT (this, m) = Return () (this1, m1)"
  shows "this1 = this\<lparr>m_count := 0\<rparr>"
  using assms
  by (auto simp: Reset_def Let_def split: if_splits platform.splits prod.splits)

lemma emplace_back_returns:
  assumes own: "owns pf sizeofT (this, m)"
      and cnt: "m_count this = 0"
      and base: "m_memory this \<noteq> 0"
      and nz: "sizeofT \<noteq> 0" "m_capacity this \<noteq> 0"
      and fit: "unat sizeofT * unat (m_capacity this) < 2 ^ 64"
      and t: "list_all (\<lambda>a. accessible m a 1) touches"
      and g: "pf = WINDOWS \<longrightarrow> grant os (calls m) (VirtualAlloc_COMMIT (m_memory this) sizeofT)"
  shows "\<exists>m1. emplace_back pf os sizeofT (this, m) v touches
           = Some (Return (m_memory this) (this\<lparr>m_count := 1\<rparr>, m1))"
proof -
  have lt: "m_count this < m_capacity this"
    using cnt nz(2) by (simp add: word_greater_zero_iff)
  have dest: "slot sizeofT this (m_count this) = m_memory this"
    using cnt by (simp add: slot_def)
  have "unat (sizeofT * m_capacity this) = unat sizeofT * unat (m_capacity this)"
    using fit by (simp add: unat_mult_lem[THEN iffD1])
  moreover have "0 < unat (m_capacity this)" using nz(2) by (simp add: unat_gt_0)
  ultimately have "unat sizeofT \<le> unat (sizeofT * m_capacity this)" by simp
  from page_range_mono[OF this] own base
  have reg: "\<forall>p \<in> set (page_range (m_memory this) sizeofT).
     usable p \<and> pages m p \<noteq> Free \<and> (pf = POSIX \<longrightarrow> pages m p = Committed)"
    by (auto simp: owns_def list_all_iff)
  show ?thesis
  proof (cases pf)
    case POSIX
    with reg have "accessible m (m_memory this) sizeofT"
      by (simp add: accessible_def list_all_iff)
    with t have "first_fault m sizeofT (m_memory this) touches = None"
      by (simp add: first_fault_None)
    with POSIX lt dest cnt show ?thesis
      by (simp add: emplace_back_def Let_def)
  next
    case WINDOWS
    with g reg base nz(1) have ok: "\<not> accessible m (m_memory this) sizeofT \<Longrightarrow>
      fst (VirtualAlloc_commit os (m_memory this) sizeofT m) \<noteq> 0"
      by (simp add: VirtualAlloc_commit_def Let_def list_all_iff)
    from WINDOWS lt dest cnt
    have "emplace_back pf os sizeofT (this, m) v touches =
            try_construct os sizeofT (m_memory this) v touches (this\<lparr>m_count := 1\<rparr>) m"
      by (simp add: emplace_back_def Let_def)
    with try_construct_benign[OF t, of os sizeofT "m_memory this" v "this\<lparr>m_count := 1\<rparr>"] ok
    show ?thesis by (cases "accessible m (m_memory this) sizeofT") auto
  qed
qed

subsection \<open>Evaluation\<close>

text \<open>The equations that evaluate the model on a concrete input.\<close>

lemmas eval_defs = VirtualMemory_ctor_def generous_os_def empty_vmem_def
  VirtualAlloc_reserve_def VirtualAlloc_commit_def VirtualFree_decommit_def mmap_anonymous_def
  mmap_fixed_def msync_def valid_placement_def page_range_def PAGE_SIZE_def log_call_def
  MAP_FAILED_def accessible_def usable_def set_pages_def drop_content_def
  emplace_back_def slot_def first_fault_def try_construct.simps PageFaultExceptionFilter_def
  EXCEPTION_CONTINUE_EXECUTION_def EXCEPTION_EXECUTE_HANDLER_def Reset_def
  operator_index_def operator_index_const_def grudging_os_def stingy_os_def reserved_vmem_def

section \<open>The claims\<close>

text \<open>
  Claim C1. After the constructor and any sequence of calls that all return, for every
  \<open>i\<close> below the number of values appended since the last \<^verbatim>\<open>Reset\<close>, both overloads of
  \<^verbatim>\<open>operator[]\<close> return the address of slot \<open>i\<close>, and the object at that address is the
  value passed to the \<open>i\<close>-th of those \<^verbatim>\<open>emplace_back\<close> calls; \<^verbatim>\<open>size()\<close> is their number.
\<close>

theorem index_returns_appended_value:
  assumes "VirtualMemory_ctor pf os sizeofT cap m0 = Return this0 m1"
      and "run pf os sizeofT ops (this0, m1) = Some (Return () (this, m))"
      and "i < length (appended [] ops)"
  shows "unat (size_vm this) = length (appended [] ops) \<and>
         operator_index sizeofT (this, m) (of_nat i)
           = Return (m_memory this + of_nat i * sizeofT) (this, m) \<and>
         operator_index_const sizeofT (this, m) (of_nat i)
           = Return (m_memory this + of_nat i * sizeofT) (this, m) \<and>
         content m (m_memory this + of_nat i * sizeofT) = Some (appended [] ops ! i)"
proof -
  from stores_run[OF stores_ctor[OF assms(1)] assms(2)]
  have s: "stores sizeofT (appended [] ops) (this, m)" by simp
  then have n: "unat (m_count this) = length (appended [] ops)"
    and v: "content m (m_memory this + of_nat i * sizeofT) = Some (appended [] ops ! i)"
    using assms(3) by (simp_all add: stores_def)
  from n assms(3) have "of_nat i < m_count this"
    by (simp add: word_less_nat_alt unat_of_nat)  
  with n v show ?thesis
    by (simp add: size_vm_def operator_index_def operator_index_const_def slot_def)
qed

theorem index_returns_appended_value_witness:
  "\<exists>this0 m1 this m.
     VirtualMemory_ctor WINDOWS generous_os 8 3 empty_vmem = Return this0 m1 \<and>
     run WINDOWS generous_os 8
       [Emplace_back 5 [], Emplace_back 6 [], Index 0, Reset_op, Emplace_back 7 [], Emplace_back 8 []]
       (this0, m1) = Some (Return () (this, m)) \<and>
     appended []
       [Emplace_back (5::nat) [], Emplace_back 6 [], Index 0, Reset_op, Emplace_back 7 [],
        Emplace_back 8 []]
       = [7, 8] \<and>
     size_vm this = 2 \<and>
     operator_index 8 (this, m) 1 = Return 0x10008 (this, m) \<and>
     content m 0x10008 = Some 8"
proof -
  let ?ops = "[Emplace_back 5 [], Emplace_back 6 [], Index 0, Reset_op, Emplace_back 7 [],
               Emplace_back (8::nat) []]"
  have "\<exists>this0 m1. VirtualMemory_ctor WINDOWS generous_os 8 3 empty_vmem = Return this0 m1 \<and>
          m_memory this0 = 0x10000"
    by (simp add: eval_defs)
  then obtain this0 m1
    where c: "VirtualMemory_ctor WINDOWS generous_os 8 3 empty_vmem = Return this0 m1"
      and b: "m_memory this0 = 0x10000"
    by blast
  have "\<exists>this m. run WINDOWS generous_os 8 ?ops (this0, m1) = Some (Return () (this, m)) \<and>
          m_memory this = 0x10000 \<and> size_vm this = 2"
    using c by (auto simp: eval_defs size_vm_def)
  then obtain this m
    where r: "run WINDOWS generous_os 8 ?ops (this0, m1) = Some (Return () (this, m))"
      and k: "m_memory this = 0x10000" "size_vm this = 2"
    by blast
  have a: "appended [] ?ops = [7, 8]" by simp
  from index_returns_appended_value[OF c r, of 1] a k
  have "operator_index 8 (this, m) 1 = Return 0x10008 (this, m) \<and> content m 0x10008 = Some 8"
    by simp
  with c r a k show ?thesis by blast
qed

text \<open>
  Claim C2. \<^verbatim>\<open>size()\<close> is 0 immediately after construction, increases by exactly 1 with
  each successful \<^verbatim>\<open>emplace_back\<close>, is 0 after \<^verbatim>\<open>Reset()\<close>, and in every state an instance
  can reach (the final state of any run, also one that ends in a fatal assertion) it
  satisfies \<open>0 \<le> size() \<le> capacity()\<close>.
\<close>

theorem size_tracks_appends:
  "(VirtualMemory_ctor pf os sizeofT cap m0 = Return this0 m1 \<longrightarrow> size_vm this0 = 0) \<and>
   (emplace_back pf os sizeofT (this, m) v touches = Some (Return a (this1, m2)) \<longrightarrow>
      unat (size_vm this1) = unat (size_vm this) + 1) \<and>
   (Reset pf os sizeofT (this, m) = Return () (this2, m3) \<longrightarrow> size_vm this2 = 0) \<and>
   (VirtualMemory_ctor pf os sizeofT cap m0 = Return this0 m1 \<and>
    run pf os sizeofT ops (this0, m1) = Some out \<longrightarrow>
      0 \<le> size_vm (fst (state_of out)) \<and>
      size_vm (fst (state_of out)) \<le> capacity (fst (state_of out)))"
proof -
  have c: "size_vm this0 = 0" if "VirtualMemory_ctor pf os sizeofT cap m0 = Return this0 m1"
    using that by (simp add: ctor_fields size_vm_def)
  have e: "unat (size_vm this1) = unat (size_vm this) + 1"
    if e: "emplace_back pf os sizeofT (this, m) v touches = Some (Return a (this1, m2))"
  proof -
    from emplace_back_count[OF e]
    have "m_count this < m_capacity this" "m_count this1 = m_count this + 1" by simp_all
    then show ?thesis by (simp add: size_vm_def unat_inc_below)
  qed
  have r: "size_vm this2 = 0" if "Reset pf os sizeofT (this, m) = Return () (this2, m3)"
    using that Reset_count(1)[of pf os sizeofT this m] by (simp add: size_vm_def)
  have i: "size_vm (fst (state_of out)) \<le> capacity (fst (state_of out))"
    if "VirtualMemory_ctor pf os sizeofT cap m0 = Return this0 m1"
      and "run pf os sizeofT ops (this0, m1) = Some out"
  proof -
    from that(1) have "m_count (fst (this0, m1)) \<le> m_capacity (fst (this0, m1))"
      by (simp add: ctor_fields)
    from run_count_le[OF that(2) this] show ?thesis by (simp add: size_vm_def capacity_def)
  qed
  from c e r i show ?thesis by simp
qed

theorem size_tracks_appends_witness:
  "\<exists>this0 m1 a this1 m2 this2 m3 out.
     VirtualMemory_ctor POSIX generous_os 8 3 empty_vmem = Return this0 m1 \<and>
     size_vm this0 = 0 \<and>
     emplace_back POSIX generous_os 8 (this0, m1) (5::nat) [] = Some (Return a (this1, m2)) \<and>
     unat (size_vm this1) = unat (size_vm this0) + 1 \<and>
     Reset POSIX generous_os 8 (this1, m2) = Return () (this2, m3) \<and>
     size_vm this2 = 0 \<and>
     run POSIX generous_os 8 [Emplace_back 7 [], Emplace_back 8 [], Emplace_back 9 [], Emplace_back 10 []] (this0, m1) = Some out \<and>
     size_vm (fst (state_of out)) = 3 \<and> capacity (fst (state_of out)) = 3"
proof -
  have "\<exists>this0 m1. VirtualMemory_ctor POSIX generous_os 8 3 empty_vmem = Return this0 m1"
    by (simp add: eval_defs)
  then obtain this0 m1
    where c: "VirtualMemory_ctor POSIX generous_os 8 3 empty_vmem = Return this0 m1"
    by blast
  have "\<exists>a this1 m2. emplace_back POSIX generous_os 8 (this0, m1) 5 [] = Some (Return a (this1, m2))"
    using c by (auto simp: eval_defs)
  then obtain a this1 m2
    where e: "emplace_back POSIX generous_os 8 (this0, m1) 5 [] = Some (Return a (this1, m2))"
    by blast
  have "\<exists>this2 m3. Reset POSIX generous_os 8 (this1, m2) = Return () (this2, m3)"
    using c e by (auto simp: eval_defs Let_def)
  then obtain this2 m3 where r: "Reset POSIX generous_os 8 (this1, m2) = Return () (this2, m3)"
    by blast
  have "\<exists>out. run POSIX generous_os 8 [Emplace_back 7 [], Emplace_back 8 [], Emplace_back 9 [], Emplace_back 10 []] (this0, m1) = Some out \<and>
          size_vm (fst (state_of out)) = 3"
    using c by (auto simp: eval_defs size_vm_def)
  then obtain out
    where o: "run POSIX generous_os 8 [Emplace_back 7 [], Emplace_back 8 [], Emplace_back 9 [], Emplace_back 10 []] (this0, m1) = Some out"
      and n: "size_vm (fst (state_of out)) = 3"
    by blast
  have k: "capacity (fst (state_of out)) = 3"
    using capacity_and_base_never_change_aux[OF c o] by simp
  from size_tracks_appends[of POSIX generous_os 8 3 empty_vmem this0 m1 this0 m1 5 "[]" a this1 m2
         _ _ "[Emplace_back 7 [], Emplace_back 8 [], Emplace_back 9 [], Emplace_back 10 []]" out]
       size_tracks_appends[of POSIX generous_os 8 3 empty_vmem this0 m1 this1 m2 _ _ _ _ _
         this2 m3 "[]" _]
       c e r o n k
  show ?thesis by blast
qed

text \<open>
  Claim C3. In a state with \<^verbatim>\<open>count_ == capacity_\<close> (the instance of capacity 0 included),
  \<^verbatim>\<open>emplace_back\<close> ends in the fatal assertion, and the state at that point is the state
  before the call: the count, the stored elements and the address space are unchanged.
\<close>

theorem emplace_back_at_capacity_is_fatal:
  assumes "m_count this = m_capacity this"
  shows "emplace_back pf os sizeofT (this, m) v touches = Some (Fatal Assert_failed (this, m))"
  using assms by (simp add: emplace_back_def)

theorem emplace_back_at_capacity_is_fatal_witness:
  "m_count \<lparr>m_memory = 0x10000, m_capacity = 3, m_count = 3\<rparr> =
     m_capacity \<lparr>m_memory = 0x10000, m_capacity = 3, m_count = 3\<rparr> \<and>
   emplace_back WINDOWS generous_os 8
     (\<lparr>m_memory = 0x10000, m_capacity = 3, m_count = 3\<rparr>, empty_vmem) 7 [] =
     Some (Fatal Assert_failed (\<lparr>m_memory = 0x10000, m_capacity = 3, m_count = 3\<rparr>, empty_vmem))"
  using emplace_back_at_capacity_is_fatal
    [of "\<lparr>m_memory = 0x10000, m_capacity = 3, m_count = 3\<rparr>" WINDOWS generous_os 8 empty_vmem 7 "[]"]
  by simp

text \<open>
  Claim C4. Both overloads of \<^verbatim>\<open>operator[]\<close> end in the fatal assertion exactly when
  \<open>index \<ge> count_\<close> and return the address of element \<open>index\<close> exactly when
  \<open>index < count_\<close>; in particular \<open>index = size()\<close> is fatal whatever the capacity is,
  and \<open>index = size() - 1\<close> succeeds on a container that is not empty.
\<close>

theorem operator_index_fatal_iff:
  "(operator_index sizeofT (this, m) index = Fatal Assert_failed (this, m)
      \<longleftrightarrow> size_vm this \<le> index) \<and>
   (operator_index sizeofT (this, m) index = Return (m_memory this + index * sizeofT) (this, m)
      \<longleftrightarrow> index < size_vm this) \<and>
   (operator_index_const sizeofT (this, m) index = Fatal Assert_failed (this, m)
      \<longleftrightarrow> size_vm this \<le> index) \<and>
   (operator_index_const sizeofT (this, m) index = Return (m_memory this + index * sizeofT) (this, m)
      \<longleftrightarrow> index < size_vm this) \<and>
   operator_index sizeofT (this, m) (size_vm this) = Fatal Assert_failed (this, m) \<and>
   operator_index_const sizeofT (this, m) (size_vm this) = Fatal Assert_failed (this, m) \<and>
   (size_vm this \<noteq> 0 \<longrightarrow>
      returned (operator_index sizeofT (this, m) (size_vm this - 1)) \<and>
      returned (operator_index_const sizeofT (this, m) (size_vm this - 1)))"
proof -
  have "size_vm this \<noteq> 0 \<Longrightarrow> size_vm this - 1 < size_vm this"
    by (simp add: word_less_nat_alt unat_minus_one unat_gt_0)
  then show ?thesis
    by (auto simp: operator_index_def operator_index_const_def size_vm_def slot_def not_less)
qed
theorem operator_index_fatal_iff_witness:
  "size_vm \<lparr>m_memory = 0x10000, m_capacity = 5, m_count = 2\<rparr> \<noteq> 0 \<and>
   returned (operator_index 8 (\<lparr>m_memory = 0x10000, m_capacity = 5, m_count = 2\<rparr>, empty_vmem) 1) \<and>
   returned (operator_index_const 8 (\<lparr>m_memory = 0x10000, m_capacity = 5, m_count = 2\<rparr>, empty_vmem) 1) \<and>
   operator_index 8 (\<lparr>m_memory = 0x10000, m_capacity = 5, m_count = 2\<rparr>, empty_vmem) 1
     = Return 0x10008 (\<lparr>m_memory = 0x10000, m_capacity = 5, m_count = 2\<rparr>, empty_vmem) \<and>
   operator_index 8 (\<lparr>m_memory = 0x10000, m_capacity = 5, m_count = 2\<rparr>, empty_vmem) 2
     = Fatal Assert_failed (\<lparr>m_memory = 0x10000, m_capacity = 5, m_count = 2\<rparr>, empty_vmem)"
proof -
  have n: "size_vm \<lparr>m_memory = 0x10000, m_capacity = 5, m_count = 2\<rparr> \<noteq> 0"
    and i: "size_vm \<lparr>m_memory = 0x10000, m_capacity = 5, m_count = 2\<rparr> - 1 = 1"
           "(1::size_t) < size_vm \<lparr>m_memory = 0x10000, m_capacity = 5, m_count = 2\<rparr>"
           "size_vm \<lparr>m_memory = 0x10000, m_capacity = 5, m_count = 2\<rparr> = 2"
    by (simp_all add: size_vm_def)
  from operator_index_fatal_iff
         [of 8 "\<lparr>m_memory = 0x10000, m_capacity = 5, m_count = 2\<rparr>" empty_vmem 1]
       operator_index_fatal_iff
         [of 8 "\<lparr>m_memory = 0x10000, m_capacity = 5, m_count = 2\<rparr>" empty_vmem 2]
       n i
  show ?thesis by simp
qed

text \<open>
  Claim C5. Through every sequence of \<^verbatim>\<open>emplace_back\<close>, \<^verbatim>\<open>operator[]\<close> and \<^verbatim>\<open>Reset\<close>,
  \<^verbatim>\<open>capacity()\<close> returns the value passed to the constructor and \<^verbatim>\<open>memory_\<close> is the base
  address established at construction.
\<close>

theorem capacity_and_base_never_change:
  assumes "VirtualMemory_ctor pf os sizeofT cap m0 = Return this0 m1"
      and "run pf os sizeofT ops (this0, m1) = Some out"
  shows "capacity (fst (state_of out)) = cap \<and> m_memory (fst (state_of out)) = m_memory this0"
  using run_frame[OF assms(2)] ctor_fields[OF assms(1)] by (simp add: capacity_def)

theorem capacity_and_base_never_change_witness:
  "\<exists>this0 m1 out.
     VirtualMemory_ctor WINDOWS generous_os 8 3 empty_vmem = Return this0 m1 \<and>
     run WINDOWS generous_os 8 [Emplace_back 5 [], Index 0, Reset_op, Emplace_back 6 []] (this0, m1)
       = Some out \<and>
     returned out \<and>
     capacity (fst (state_of out)) = 3 \<and> m_memory (fst (state_of out)) = 0x10000"
proof -
  have "\<exists>this0 m1. VirtualMemory_ctor WINDOWS generous_os 8 3 empty_vmem = Return this0 m1 \<and> m_memory this0 = 0x10000"
    by (simp add: eval_defs)
  then obtain this0 m1 where c: "VirtualMemory_ctor WINDOWS generous_os 8 3 empty_vmem = Return this0 m1"
     and b: "m_memory this0 = 0x10000"
    by blast
  have "\<exists>out. run WINDOWS generous_os 8 [Emplace_back 5 [], Index 0, Reset_op, Emplace_back 6 []] (this0, m1) = Some out \<and> returned out"
    using c by (auto simp: eval_defs)
  then obtain out where r: "run WINDOWS generous_os 8 [Emplace_back 5 [], Index 0, Reset_op, Emplace_back 6 []] (this0, m1) = Some out"
    and "returned out"
    by blast
  with capacity_and_base_never_change[OF c r] c b show ?thesis by simp
qed

text \<open>
  Claim C6. From any state an instance can reach by calls that return, a \<^verbatim>\<open>Reset()\<close>
  that returns sets the count to 0 and leaves the capacity and the base address as the
  constructor set them. The next \<^verbatim>\<open>emplace_back\<close>, if it returns, has built its element
  at index 0, which is the base address; and it does return when the capacity is not 0,
  \<open>capacity * sizeof(T)\<close> does not overflow, the constructor of \<^verbatim>\<open>T\<close> reads nothing
  inaccessible, and (on Windows) the system grants the commit of the slot.
\<close>

theorem Reset_keeps_the_instance_usable:
  assumes c: "VirtualMemory_ctor pf os sizeofT cap m0 = Return this0 m1"
      and r: "run pf os sizeofT ops (this0, m1) = Some (Return () (this, m))"
      and z: "Reset pf os sizeofT (this, m) = Return () (this2, m2)"
  shows "size_vm this2 = 0 \<and> capacity this2 = cap \<and> m_memory this2 = m_memory this0 \<and>
         (emplace_back pf os sizeofT (this2, m2) v touches = Some (Return a (this3, m3)) \<longrightarrow>
            a = m_memory this0 \<and> size_vm this3 = 1 \<and>
            operator_index sizeofT (this3, m3) 0 = Return (m_memory this0) (this3, m3) \<and>
            content m3 (m_memory this0) = Some v) \<and>
         (cap \<noteq> 0 \<and> unat sizeofT * unat cap < 2 ^ 64 \<and>
          list_all (\<lambda>a. accessible m2 a 1) touches \<and>
          (pf = WINDOWS \<longrightarrow> grant os (calls m2) (VirtualAlloc_COMMIT (m_memory this0) sizeofT)) \<longrightarrow>
            (\<exists>m3. emplace_back pf os sizeofT (this2, m2) v touches
                    = Some (Return (m_memory this0) (this2\<lparr>m_count := 1\<rparr>, m3))))"
proof -
  from run_frame[OF r] ctor_fields[OF c]
  have f: "m_memory this = m_memory this0" "m_capacity this = cap" by simp_all
  note t2 = Reset_Return[OF z]
  with f have g: "m_count this2 = 0" "m_capacity this2 = cap" "m_memory this2 = m_memory this0"
    by simp_all
  have p1: "size_vm this2 = 0 \<and> capacity this2 = cap \<and> m_memory this2 = m_memory this0"
    using g by (simp add: size_vm_def capacity_def)
  have p2: "a = m_memory this0 \<and> size_vm this3 = 1 \<and>
            operator_index sizeofT (this3, m3) 0 = Return (m_memory this0) (this3, m3) \<and>
            content m3 (m_memory this0) = Some v"
    if e: "emplace_back pf os sizeofT (this2, m2) v touches = Some (Return a (this3, m3))"
  proof -
    note q = emplace_back_Return[OF e]
    from q(2) g have a: "a = m_memory this0" by (simp add: slot_def)
    from q(3) g have t3: "m_count this3 = 1" "m_memory this3 = m_memory this0" by simp_all
    from a t3 q(4) show ?thesis
      by (simp add: size_vm_def operator_index_def slot_def)
  qed
  have p3: "\<exists>m3. emplace_back pf os sizeofT (this2, m2) v touches
                    = Some (Return (m_memory this0) (this2\<lparr>m_count := 1\<rparr>, m3))"
    if h: "cap \<noteq> 0 \<and> unat sizeofT * unat cap < 2 ^ 64 \<and>
          list_all (\<lambda>a. accessible m2 a 1) touches \<and>
          (pf = WINDOWS \<longrightarrow> grant os (calls m2) (VirtualAlloc_COMMIT (m_memory this0) sizeofT))"
  proof -
    from owns_run[OF owns_ctor[OF c] r] have "owns pf sizeofT (this, m)" .
    from owns_Reset[OF this z] have own: "owns pf sizeofT (this2, m2)" .
    from stores_ctor[OF c] have "cap \<noteq> 0 \<longrightarrow> sizeofT \<noteq> 0"
      using ctor_fields[OF c] by (simp add: stores_def)
    with h have nz: "sizeofT \<noteq> 0" by simp
    from ctor_null_iff[OF c] h have base: "m_memory this0 \<noteq> 0" by simp
    from emplace_back_returns[OF own g(1), where os = os and touches = touches and v = v] base nz h g
    show ?thesis by simp
  qed
  from p1 p2 p3 show ?thesis by blast
qed

theorem Reset_keeps_the_instance_usable_witness:
  "\<exists>this0 m1 this m this2 m2 m3.
     VirtualMemory_ctor WINDOWS generous_os 8 3 empty_vmem = Return this0 m1 \<and>
     run WINDOWS generous_os 8 [Emplace_back 5 [], Emplace_back 6 []] (this0, m1)
       = Some (Return () (this, m)) \<and>
     size_vm this = 2 \<and>
     Reset WINDOWS generous_os 8 (this, m) = Return () (this2, m2) \<and>
     size_vm this2 = 0 \<and> capacity this2 = 3 \<and> m_memory this2 = 0x10000 \<and>
     emplace_back WINDOWS generous_os 8 (this2, m2) 7 []
       = Some (Return 0x10000 (this2\<lparr>m_count := 1\<rparr>, m3)) \<and>
     content m3 0x10000 = Some 7"
proof -
  have "\<exists>this0 m1. VirtualMemory_ctor WINDOWS generous_os 8 3 empty_vmem = Return this0 m1 \<and>
          m_memory this0 = 0x10000"
    by (simp add: eval_defs)
  then obtain this0 m1
    where c: "VirtualMemory_ctor WINDOWS generous_os 8 3 empty_vmem = Return this0 m1"
      and b: "m_memory this0 = 0x10000"
    by blast
  have "\<exists>this m. run WINDOWS generous_os 8 [Emplace_back 5 [], Emplace_back 6 []] (this0, m1)
            = Some (Return () (this, m)) \<and> size_vm this = 2"
    using c by (auto simp: eval_defs size_vm_def)
  then obtain this m
    where r: "run WINDOWS generous_os 8 [Emplace_back 5 [], Emplace_back 6 []] (this0, m1)
            = Some (Return () (this, m))"
      and n: "size_vm this = 2"
    by blast
  have "\<exists>this2 m2. Reset WINDOWS generous_os 8 (this, m) = Return () (this2, m2)"
    using c r by (auto simp: eval_defs Let_def)
  then obtain this2 m2 where z: "Reset WINDOWS generous_os 8 (this, m) = Return () (this2, m2)"
    by blast
  have h: "(3 :: size_t) \<noteq> 0 \<and> unat (8 :: size_t) * unat (3 :: size_t) < 2 ^ 64 \<and>
          list_all (\<lambda>a. accessible m2 a 1) [] \<and>
          (WINDOWS = WINDOWS \<longrightarrow>
             grant generous_os (calls m2) (VirtualAlloc_COMMIT (m_memory this0) 8))"
    by (simp add: generous_os_def)
  note t = Reset_keeps_the_instance_usable[OF c r z, of 7 "[]"]
  from t h obtain m3
    where e: "emplace_back WINDOWS generous_os 8 (this2, m2) 7 []
                = Some (Return (m_memory this0) (this2\<lparr>m_count := 1\<rparr>, m3))"
    by blast
  from t[of "m_memory this0" "this2\<lparr>m_count := 1\<rparr>" m3] e
  have "content m3 (m_memory this0) = Some 7" by blast
  with t e b c r n z show ?thesis by (auto simp: b)
qed

text \<open>
  Claim C7. Constructing with capacity 0 makes no system call (the address space,
  its call log included, is returned as it was given) and sets the base pointer to null;
  \<^verbatim>\<open>capacity()\<close> and \<^verbatim>\<open>size()\<close> are 0; and in every state that instance can reach,
  \<^verbatim>\<open>emplace_back\<close> ends in the fatal assertion.
\<close>

theorem zero_capacity_instance:
  "VirtualMemory_ctor pf os sizeofT 0 m = Return null_instance m \<and>
   m_memory null_instance = 0 \<and> capacity null_instance = 0 \<and> size_vm null_instance = 0 \<and>
   emplace_back pf os sizeofT (null_instance, m) v touches
     = Some (Fatal Assert_failed (null_instance, m)) \<and>
   (run pf os sizeofT ops (null_instance, m) = Some out \<longrightarrow>
      state_of out = (null_instance, m) \<and>
      emplace_back pf os sizeofT (state_of out) v touches = Some (Fatal Assert_failed (state_of out)))"
proof -
  have e: "emplace_back pf os sizeofT (null_instance, m) v touches
     = Some (Fatal Assert_failed (null_instance, m))"
    by (simp add: emplace_back_def null_instance_def)
  show ?thesis
    using e run_null_instance[of pf os sizeofT ops m out]
    by (simp add: VirtualMemory_ctor_def null_instance_def capacity_def size_vm_def)
qed

theorem zero_capacity_instance_witness:
  "run POSIX generous_os 8 [Reset_op, Emplace_back 1 []] (null_instance, empty_vmem)
     = Some (Fatal Assert_failed (null_instance, empty_vmem)) \<and>
   calls (state_of (VirtualMemory_ctor POSIX generous_os 8 0 empty_vmem)) = [] \<and>
   emplace_back POSIX generous_os 8 (null_instance, empty_vmem) (1::nat) []
     = Some (Fatal Assert_failed (null_instance, empty_vmem))"
proof -
  have r: "run POSIX generous_os 8 [Reset_op, Emplace_back 1 []] (null_instance, empty_vmem)
     = Some (Fatal Assert_failed (null_instance, empty_vmem))"
    by (simp add: Reset_def emplace_back_def null_instance_def)
  from zero_capacity_instance[of POSIX generous_os 8 empty_vmem 1 "[]" "[Reset_op, Emplace_back 1 []]"
      "Fatal Assert_failed (null_instance, empty_vmem)"] r
  show ?thesis by (simp add: empty_vmem_def)
qed

text \<open>
  Claim C8, as the source has it. The constructor does not detect that
  \<open>capacity * sizeof(T)\<close> overflows: it asks the system for the wrapped length
  \<open>capacity * sizeof(T) mod 2\<^sup>6\<^sup>4\<close>, and construction ends in the fatal assertion exactly
  when the capacity is not 0 and the system does not make that reservation.
\<close>

theorem ctor_reserves_wrapped_length:
  "unat (sizeofT * cap) = (unat sizeofT * unat cap) mod 2 ^ 64 \<and>
   (returned (VirtualMemory_ctor pf os sizeofT cap m)
      \<longleftrightarrow> cap = 0 \<or> os_reserves os m (sizeofT * cap)) \<and>
   (cap = 0 \<or>
    take (Suc (length (calls m))) (calls (state_of (VirtualMemory_ctor pf os sizeofT cap m))) =
      calls m @ [case pf of WINDOWS \<Rightarrow> VirtualAlloc_RESERVE (sizeofT * cap)
                          | POSIX \<Rightarrow> Mmap_ANONYMOUS (sizeofT * cap)])"
proof -
  have a: "unat (sizeofT * cap) = (unat sizeofT * unat cap) mod 2 ^ 64"
    by (simp add: unat_word_ariths)
  have b: "returned (VirtualMemory_ctor pf os sizeofT cap m)
      \<longleftrightarrow> cap = 0 \<or> os_reserves os m (sizeofT * cap)"
    by (auto simp: VirtualMemory_ctor_def Let_def os_reserves_def VirtualAlloc_reserve_def
        mmap_anonymous_def valid_placement_not_failed
        split: platform.splits option.splits prod.splits if_splits)
  have c: "cap = 0 \<or>
    take (Suc (length (calls m))) (calls (state_of (VirtualMemory_ctor pf os sizeofT cap m))) =
      calls m @ [case pf of WINDOWS \<Rightarrow> VirtualAlloc_RESERVE (sizeofT * cap)
                          | POSIX \<Rightarrow> Mmap_ANONYMOUS (sizeofT * cap)]"
    by (auto simp: VirtualMemory_ctor_def Let_def VirtualAlloc_reserve_def
        mmap_anonymous_def log_call_def msync_def
        split: platform.splits option.splits prod.splits if_splits)
  from a b c show ?thesis by blast
qed
theorem ctor_reserves_wrapped_length_witness:
  "unat (8 * (2 ^ 61 + 1) :: size_t) = 8 \<and>
   os_reserves generous_os empty_vmem (8 * (2 ^ 61 + 1)) \<and>
   returned (VirtualMemory_ctor POSIX generous_os 8 (2 ^ 61 + 1) empty_vmem) \<and>
   take 1 (calls (state_of (VirtualMemory_ctor POSIX generous_os 8 (2 ^ 61 + 1) empty_vmem)))
     = [Mmap_ANONYMOUS 8]"
proof -
  have g: "os_reserves generous_os empty_vmem (8 * (2 ^ 61 + 1))"
    by (simp add: os_reserves_def eval_defs)
  from ctor_reserves_wrapped_length[of 8 "2 ^ 61 + 1" POSIX generous_os empty_vmem] g
  show ?thesis by (simp add: empty_vmem_def)
qed

text \<open>
  Claim C8 as stated fails: with \<open>sizeof(T) = 8\<close> and capacity \<open>2\<^sup>6\<^sup>1 + 1\<close> the product
  overflows, the system is asked for 8 bytes, and the constructor returns.
\<close>

theorem overflowing_capacity_counterexample:
  "2 ^ 64 \<le> unat (8 :: size_t) * unat (2 ^ 61 + 1 :: size_t) \<and>
   returned (VirtualMemory_ctor WINDOWS generous_os 8 (2 ^ 61 + 1) empty_vmem) \<and>
   calls (state_of (VirtualMemory_ctor WINDOWS generous_os 8 (2 ^ 61 + 1) empty_vmem))
     = [VirtualAlloc_RESERVE 8]"
  by (simp add: eval_defs)


text \<open>
  Claim C9, as the source has it. Under the fault-trapped strategy the filter resumes
  execution exactly when the exception is an access violation and committing the pages
  that cover the slot under construction (\<^verbatim>\<open>sizeof(T)\<close> bytes at \<^verbatim>\<open>&dest\<close>) succeeds, and
  then those pages are readable and writable; it is not given the faulting address. Any
  other exception, and a fault whose commit fails, runs the handler, which is fatal. A
  fault followed by a successful commit resumes the construction, however many faults
  came before. When the construction reads nothing inaccessible besides the slot, there
  is at most one commit and the statement ends: with the value stored, or fatally when
  that commit fails.
\<close>

theorem fault_handler_commits_the_slot:
  "(fst (PageFaultExceptionFilter os sizeofT dwCode target m) = EXCEPTION_CONTINUE_EXECUTION
      \<longleftrightarrow> dwCode = EXCEPTION_ACCESS_VIOLATION \<and> fst (VirtualAlloc_commit os target sizeofT m) \<noteq> 0) \<and>
   (fst (PageFaultExceptionFilter os sizeofT dwCode target m) = EXCEPTION_EXECUTE_HANDLER
      \<longleftrightarrow> dwCode \<noteq> EXCEPTION_ACCESS_VIOLATION \<or> fst (VirtualAlloc_commit os target sizeofT m) = 0) \<and>
   (fst (PageFaultExceptionFilter os sizeofT dwCode target m) = EXCEPTION_CONTINUE_EXECUTION
      \<longrightarrow> accessible (snd (PageFaultExceptionFilter os sizeofT dwCode target m)) target sizeofT \<and>
          calls (snd (PageFaultExceptionFilter os sizeofT dwCode target m))
            = calls m @ [VirtualAlloc_COMMIT target sizeofT]) \<and>
   (first_fault m sizeofT dest touches \<noteq> None \<and> fst (VirtualAlloc_commit os dest sizeofT m) = 0
      \<longrightarrow> try_construct os sizeofT dest v touches this m
            = Some (Fatal Assert_failed (this, snd (VirtualAlloc_commit os dest sizeofT m)))) \<and>
   (first_fault m sizeofT dest touches \<noteq> None \<and> fst (VirtualAlloc_commit os dest sizeofT m) \<noteq> 0
      \<longrightarrow> try_construct os sizeofT dest v touches this m
            = try_construct os sizeofT dest v touches this (snd (VirtualAlloc_commit os dest sizeofT m))) \<and>
   (list_all (\<lambda>a. accessible m a 1) touches
      \<longrightarrow> try_construct os sizeofT dest v touches this m =
          (if accessible m dest sizeofT
           then Some (Return dest (this, m\<lparr>content := (content m)(dest \<mapsto> v)\<rparr>))
           else if fst (VirtualAlloc_commit os dest sizeofT m) \<noteq> 0
           then Some (Return dest
                  (this, (snd (VirtualAlloc_commit os dest sizeofT m))\<lparr>content := (content m)(dest \<mapsto> v)\<rparr>))
           else Some (Fatal Assert_failed (this, snd (VirtualAlloc_commit os dest sizeofT m)))))"
proof -
  let ?f = "PageFaultExceptionFilter os sizeofT dwCode target m"
  let ?c = "VirtualAlloc_commit os dest sizeofT m"
  have a: "fst ?f = EXCEPTION_CONTINUE_EXECUTION
      \<longleftrightarrow> dwCode = EXCEPTION_ACCESS_VIOLATION \<and> fst (VirtualAlloc_commit os target sizeofT m) \<noteq> 0"
    using dispositions_differ by (simp add: filter_disposition(1))
  have b: "fst ?f = EXCEPTION_EXECUTE_HANDLER
      \<longleftrightarrow> dwCode \<noteq> EXCEPTION_ACCESS_VIOLATION \<or> fst (VirtualAlloc_commit os target sizeofT m) = 0"
    using dispositions_differ by (auto simp: filter_disposition(1))
  have c: "accessible (snd ?f) target sizeofT \<and>
          calls (snd ?f) = calls m @ [VirtualAlloc_COMMIT target sizeofT]"
    if "fst ?f = EXCEPTION_CONTINUE_EXECUTION"
  proof -
    from that a have av: "dwCode = EXCEPTION_ACCESS_VIOLATION"
      and ok: "fst (VirtualAlloc_commit os target sizeofT m) \<noteq> 0" by simp_all
    from commit_effect(1,2)[OF ok] filter_disposition(2)[OF av, where os = os and sizeofT = sizeofT and target = target and m = m]
    show ?thesis by simp
  qed
  have d: "try_construct os sizeofT dest v touches this m = Some (Fatal Assert_failed (this, snd ?c))"
    if "first_fault m sizeofT dest touches \<noteq> None \<and> fst ?c = 0"
    using that try_construct_fault[of m sizeofT dest touches os v this] by simp
  have e: "try_construct os sizeofT dest v touches this m
            = try_construct os sizeofT dest v touches this (snd ?c)"
    if "first_fault m sizeofT dest touches \<noteq> None \<and> fst ?c \<noteq> 0"
    using that try_construct_fault[of m sizeofT dest touches os v this] by simp
  have f: "try_construct os sizeofT dest v touches this m =
          (if accessible m dest sizeofT
           then Some (Return dest (this, m\<lparr>content := (content m)(dest \<mapsto> v)\<rparr>))
           else if fst ?c \<noteq> 0
           then Some (Return dest (this, (snd ?c)\<lparr>content := (content m)(dest \<mapsto> v)\<rparr>))
           else Some (Fatal Assert_failed (this, snd ?c)))"
    if t: "list_all (\<lambda>a. accessible m a 1) touches"
    using try_construct_benign[OF t] .
  from a b c d e f show ?thesis by blast
qed

theorem fault_handler_commits_the_slot_witness:
  "fst (PageFaultExceptionFilter generous_os 8 EXCEPTION_ACCESS_VIOLATION 0x10000 reserved_vmem)
     = EXCEPTION_CONTINUE_EXECUTION \<and>
   accessible (snd (PageFaultExceptionFilter generous_os 8 EXCEPTION_ACCESS_VIOLATION 0x10000
     reserved_vmem)) 0x10000 8 \<and>
   fst (PageFaultExceptionFilter generous_os 8 0xC0000094 0x10000 reserved_vmem)
     = EXCEPTION_EXECUTE_HANDLER \<and>
   fst (PageFaultExceptionFilter stingy_os 8 EXCEPTION_ACCESS_VIOLATION 0x10000 reserved_vmem)
     = EXCEPTION_EXECUTE_HANDLER \<and>
   try_construct generous_os 8 0x10000 7 [] \<lparr>m_memory = 0x10000, m_capacity = 3, m_count = 1\<rparr>
     reserved_vmem =
     Some (Return 0x10000 (\<lparr>m_memory = 0x10000, m_capacity = 3, m_count = 1\<rparr>,
       (snd (VirtualAlloc_commit generous_os 0x10000 8 reserved_vmem))
         \<lparr>content := (content reserved_vmem)(0x10000 \<mapsto> 7)\<rparr>)) \<and>
   try_construct stingy_os 8 0x10000 7 [] \<lparr>m_memory = 0x10000, m_capacity = 3, m_count = 1\<rparr>
     reserved_vmem =
     Some (Fatal Assert_failed (\<lparr>m_memory = 0x10000, m_capacity = 3, m_count = 1\<rparr>,
       snd (VirtualAlloc_commit stingy_os 0x10000 8 reserved_vmem)))"
proof -
  have g: "fst (VirtualAlloc_commit generous_os 0x10000 8 reserved_vmem) \<noteq> 0"
    and n: "fst (VirtualAlloc_commit stingy_os 0x10000 8 reserved_vmem) = 0"
    and d: "(0xC0000094 :: dword) \<noteq> EXCEPTION_ACCESS_VIOLATION"
    and f: "first_fault reserved_vmem 8 0x10000 [] \<noteq> None"
    and i: "\<not> accessible reserved_vmem 0x10000 8"
    and t: "list_all (\<lambda>a. accessible reserved_vmem a 1) []"
    by (simp_all add: eval_defs EXCEPTION_ACCESS_VIOLATION_def)
  from fault_handler_commits_the_slot
         [where os = generous_os and sizeofT = 8 and dwCode = EXCEPTION_ACCESS_VIOLATION and target = "0x10000"
            and m = reserved_vmem and dest = "0x10000" and touches = "[]" and v = 7
            and this = "\<lparr>m_memory = 0x10000, m_capacity = 3, m_count = 1\<rparr>"]
       fault_handler_commits_the_slot
         [where os = generous_os and sizeofT = 8 and dwCode = "0xC0000094" and target = "0x10000"
            and m = reserved_vmem and dest = "0x10000" and touches = "[]" and v = 7
            and this = "\<lparr>m_memory = 0x10000, m_capacity = 3, m_count = 1\<rparr>"]
       fault_handler_commits_the_slot
         [where os = stingy_os and sizeofT = 8 and dwCode = EXCEPTION_ACCESS_VIOLATION and target = "0x10000"
            and m = reserved_vmem and dest = "0x10000" and touches = "[]" and v = 7
            and this = "\<lparr>m_memory = 0x10000, m_capacity = 3, m_count = 1\<rparr>"]
       g n d f i t
  show ?thesis by simp
qed

text \<open>
  Claim C9 as stated fails. A constructor that reads address \<open>0x20000\<close>, outside the 24
  bytes reserved at \<open>0x10000\<close>, faults there; the filter commits the slot and resumes, the
  second fault after that successful commit is resumed as well, and only the third, whose
  commit the system refuses, is fatal: three commit calls in one append.
\<close>

theorem second_fault_is_resumed_counterexample:
  "VirtualMemory_ctor WINDOWS grudging_os 8 3 empty_vmem =
     Return \<lparr>m_memory = 0x10000, m_capacity = 3, m_count = 0\<rparr> reserved_vmem \<and>
   first_fault reserved_vmem 8 0x10000 [0x20000] = Some 0x20000 \<and>
   fst (PageFaultExceptionFilter grudging_os 8 EXCEPTION_ACCESS_VIOLATION 0x10000 reserved_vmem)
     = EXCEPTION_CONTINUE_EXECUTION \<and>
   emplace_back WINDOWS grudging_os 8
     (\<lparr>m_memory = 0x10000, m_capacity = 3, m_count = 0\<rparr>, reserved_vmem) 7 [0x20000] =
     Some (Fatal Assert_failed
       (\<lparr>m_memory = 0x10000, m_capacity = 3, m_count = 1\<rparr>,
        reserved_vmem\<lparr>pages := (pages reserved_vmem)(16 := Committed),
                      calls := [VirtualAlloc_RESERVE 24, VirtualAlloc_COMMIT 0x10000 8,
                                VirtualAlloc_COMMIT 0x10000 8, VirtualAlloc_COMMIT 0x10000 8]\<rparr>))"
  by (simp add: eval_defs fun_eq_iff)

text \<open>
  Claim C10. In every state an instance can reach, \<open>count_ > 0\<close> implies that
  \<^verbatim>\<open>memory_\<close> is not null, and so does \<open>count_ < capacity_\<close>: past their assertions,
  \<^verbatim>\<open>operator[]\<close> and \<^verbatim>\<open>emplace_back\<close> never index a null base pointer.
\<close>

theorem live_elements_have_a_base:
  assumes "VirtualMemory_ctor pf os sizeofT cap m0 = Return this0 m1"
      and "run pf os sizeofT ops (this0, m1) = Some out"
  shows "(0 < size_vm (fst (state_of out)) \<longrightarrow> m_memory (fst (state_of out)) \<noteq> 0) \<and>
         (size_vm (fst (state_of out)) < capacity (fst (state_of out)) \<longrightarrow>
            m_memory (fst (state_of out)) \<noteq> 0)"
proof -
  have f: "m_capacity (fst (state_of out)) = cap" "m_memory (fst (state_of out)) = m_memory this0"
    using run_frame[OF assms(2)] ctor_fields[OF assms(1)] by simp_all
  have le: "m_count (fst (state_of out)) \<le> m_capacity (fst (state_of out))"
    using run_count_le[OF assms(2)] ctor_fields[OF assms(1)] by simp
  have n: "m_memory this0 = 0 \<longleftrightarrow> cap = 0" by (rule ctor_null_iff[OF assms(1)])
  show ?thesis
    using f le n by (auto simp: size_vm_def capacity_def word_greater_zero_iff)
qed
theorem live_elements_have_a_base_witness:
  "\<exists>this0 m1 out.
     VirtualMemory_ctor POSIX generous_os 8 3 empty_vmem = Return this0 m1 \<and>
     run POSIX generous_os 8 [Emplace_back (5::nat) [], Emplace_back 6 []] (this0, m1) = Some out \<and>
     0 < size_vm (fst (state_of out)) \<and>
     size_vm (fst (state_of out)) < capacity (fst (state_of out)) \<and>
     m_memory (fst (state_of out)) \<noteq> 0"
proof -
  have "\<exists>this0 m1. VirtualMemory_ctor POSIX generous_os 8 3 empty_vmem = Return this0 m1"
    by (simp add: eval_defs)
  then obtain this0 m1
    where c: "VirtualMemory_ctor POSIX generous_os 8 3 empty_vmem = Return this0 m1"
    by blast
  have "\<exists>out. run POSIX generous_os 8 [Emplace_back 5 [], Emplace_back 6 []] (this0, m1) = Some out \<and>
          0 < size_vm (fst (state_of out)) \<and>
          size_vm (fst (state_of out)) < capacity (fst (state_of out))"
    using c by (auto simp: eval_defs size_vm_def capacity_def)
  then obtain out
    where o: "run POSIX generous_os 8 [Emplace_back 5 [], Emplace_back 6 []] (this0, m1) = Some out"
      and n: "0 < size_vm (fst (state_of out))"
             "size_vm (fst (state_of out)) < capacity (fst (state_of out))"
    by blast
  from live_elements_have_a_base[OF c o] c o n show ?thesis by blast
qed

end
